theory Spec2Isabelle
  imports Complex_Main "HOL-Library.Word"
begin

section \<open>Python string primitives used by tmux\_bridge.py\<close>

text \<open>
  Python strings are modelled as \<open>string\<close> (lists of 8-bit characters): code points
  above 255 are outside the model. The functions below follow the behaviour of the
  built-in methods that \<open>tmux_bridge.py\<close> calls on \<open>str\<close> values.
\<close>

definition ESC :: char where "ESC = CHR 0x1B"
definition BEL :: char where "BEL = CHR 0x07"
definition LF :: char where "LF = CHR 0x0A"
definition CR :: char where "CR = CHR 0x0D"
definition BACKSLASH :: char where "BACKSLASH = CHR 0x5C"

text \<open>\<open>str.isspace\<close> on one character, which is also what \<open>\s\<close> matches in a
  \<open>str\<close> pattern: TAB, LF, VT, FF, CR, FS, GS, RS, US, space, NEL and NBSP.\<close>

definition py_isspace :: "char \<Rightarrow> bool" where
  "py_isspace c = (c \<in> set [CHR 0x09, CHR 0x0A, CHR 0x0B, CHR 0x0C, CHR 0x0D,
                            CHR 0x1C, CHR 0x1D, CHR 0x1E, CHR 0x1F, CHR 0x20,
                            CHR 0x85, CHR 0xA0])"

text \<open>The characters at which \<open>str.splitlines\<close> breaks a line (CR LF counts once).\<close>

definition is_linebreak :: "char \<Rightarrow> bool" where
  "is_linebreak c = (c \<in> set [CHR 0x0A, CHR 0x0D, CHR 0x0B, CHR 0x0C,
                              CHR 0x1C, CHR 0x1D, CHR 0x1E, CHR 0x85])"

text \<open>\<open>s.strip()\<close>: whitespace removed at both ends.\<close>

definition py_strip :: "string \<Rightarrow> string" where
  "py_strip s = rev (dropWhile py_isspace (rev (dropWhile py_isspace s)))"

text \<open>\<open>s.splitlines()\<close>: the first argument is the line collected so far. A final
  line break does not open a further, empty line.\<close>

fun splitlines_from :: "string \<Rightarrow> string \<Rightarrow> string list" where
  "splitlines_from cur [] = (if cur = [] then [] else [cur])"
| "splitlines_from cur (c # cs) =
     (if c = CR then
        (case cs of
           [] \<Rightarrow> [cur]
         | d # ds \<Rightarrow> if d = LF then cur # splitlines_from [] ds
                     else cur # splitlines_from [] (d # ds))
      else if is_linebreak c then cur # splitlines_from [] cs
      else splitlines_from (cur @ [c]) cs)"

definition splitlines :: "string \<Rightarrow> string list" where
  "splitlines s = splitlines_from [] s"

text \<open>\<open>"\n".join(ls)\<close> and \<open>" ".join(ls)\<close>.\<close>

fun join :: "string \<Rightarrow> string list \<Rightarrow> string" where
  "join sep [] = []"
| "join sep [l] = l"
| "join sep (l # m # ls) = l @ sep @ join sep (m # ls)"

text \<open>\<open>sub\<close> occurs in \<open>s\<close> at index \<open>i\<close>.\<close>

definition occurs_at :: "string \<Rightarrow> string \<Rightarrow> nat \<Rightarrow> bool" where
  "occurs_at s sub i = (i + length sub \<le> length s \<and> take (length sub) (drop i s) = sub)"

text \<open>\<open>s.rfind(sub)\<close>: the highest index at which \<open>sub\<close> occurs, or -1.\<close>

definition rfind :: "string \<Rightarrow> string \<Rightarrow> int" where
  "rfind s sub =
     (case filter (occurs_at s sub) (rev [0 ..< Suc (length s)]) of
        [] \<Rightarrow> -1
      | i # _ \<Rightarrow> int i)"

text \<open>\<open>sub in s\<close> and \<open>s.startswith(p)\<close>.\<close>

definition py_in :: "string \<Rightarrow> string \<Rightarrow> bool" where
  "py_in sub s = list_ex (occurs_at s sub) [0 ..< Suc (length s)]"

definition startswith :: "string \<Rightarrow> string \<Rightarrow> bool" where
  "startswith s p = (take (length p) s = p)"

text \<open>The slice \<open>s[i:j]\<close> for indices \<open>0 \<le> i\<close> and \<open>0 \<le> j\<close>; it is empty
  when \<open>j \<le> i\<close>.\<close>

definition slice :: "string \<Rightarrow> nat \<Rightarrow> nat \<Rightarrow> string" where
  "slice s i j = take (j - i) (drop i s)"

text \<open>The slice \<open>xs[-n:]\<close> for an integer \<open>n\<close>: a negative start \<open>-n\<close> counts from
  the end (clamped at the beginning), while a start \<open>-n \<ge> 0\<close> is an ordinary index,
  so that \<open>xs[-0:]\<close> is \<open>xs[0:]\<close>.\<close>

definition slice_from_neg :: "'a list \<Rightarrow> int \<Rightarrow> 'a list" where
  "slice_from_neg xs n =
     (if - n < 0 then drop (nat (max 0 (int (length xs) + (- n)))) xs
      else drop (nat (- n)) xs)"

section \<open>Text sanitizer: \<open>strip_ansi\<close>\<close>

definition is_csi_param :: "char \<Rightarrow> bool" where
  "is_csi_param c = (c \<in> set ''0123456789;?'')"

definition is_digit :: "char \<Rightarrow> bool" where
  "is_digit c = (c \<in> set ''0123456789'')"

definition is_ascii_letter :: "char \<Rightarrow> bool" where
  "is_ascii_letter c =
     (let n = (of_char c :: nat) in (65 \<le> n \<and> n \<le> 90) \<or> (97 \<le> n \<and> n \<le> 122))"

text \<open>The OSC branch \<open>.*?(?:\x07|\x1b\\)\<close> after the \<open>]\<close>: the length of the
  shortest payload-plus-terminator, if any. The dot does not match a line feed.\<close>

fun osc_len :: "string \<Rightarrow> nat option" where
  "osc_len [] = None"
| "osc_len (c # cs) =
     (if c = BEL then Some 1
      else if c = ESC \<and> (case cs of [] \<Rightarrow> False | d # _ \<Rightarrow> d = BACKSLASH) then Some 2
      else if c = LF then None
      else map_option Suc (osc_len cs))"

text \<open>The alternation of \<open>_ANSI_RE\<close> after its leading ESC: the number of characters
  the match takes from the text that follows the ESC, if the pattern matches there.\<close>

definition ansi_match_len :: "string \<Rightarrow> nat option" where
  "ansi_match_len cs =
     (case cs of
        [] \<Rightarrow> None
      | c # rest \<Rightarrow>
          if c = CHR ''['' then
            (let k = length (takeWhile is_csi_param rest) in
             case drop k rest of
               [] \<Rightarrow> None
             | f # _ \<Rightarrow> if is_ascii_letter f then Some (k + 2) else None)
          else if c = CHR '']'' then map_option Suc (osc_len rest)
          else if c = CHR ''('' \<or> c = CHR '')'' then
            (case rest of
               [] \<Rightarrow> None
             | d # _ \<Rightarrow> if d \<in> set ''AB012'' then Some 2 else None)
          else if c = CHR ''>'' \<or> c = CHR ''='' then Some 1
          else if c = CHR ''#'' then
            (case rest of
               [] \<Rightarrow> None
             | d # _ \<Rightarrow> if is_digit d then Some 2 else None)
          else None)"

text \<open>\<open>_ANSI_RE.sub("", text)\<close>: scanning from the left, every match is removed and
  every other character is kept.\<close>

function strip_ansi :: "string \<Rightarrow> string" where
  "strip_ansi [] = []"
| "strip_ansi (c # cs) =
     (if c = ESC then
        (case ansi_match_len cs of
           Some n \<Rightarrow> strip_ansi (drop n cs)
         | None \<Rightarrow> c # strip_ansi cs)
      else c # strip_ansi cs)"
  by pat_completeness auto
termination
  by (relation "measure length") auto

section \<open>Exceptions\<close>

text \<open>The exception classes of the module, and \<open>Builtin name\<close> for an exception
  class of Python itself (\<open>PermissionError\<close>, \<open>ValueError\<close>,
  \<open>UnicodeDecodeError\<close>, ...), which is no \<open>TmuxError\<close>.
  \<open>SessionNotFoundError\<close> and \<open>CommandTimeoutError\<close> derive from
  \<open>TmuxError\<close>, so \<open>except TmuxError\<close> catches the three classes of the module
  and nothing else.\<close>

datatype exc_class = TmuxError | SessionNotFoundError | CommandTimeoutError | Builtin string

fun is_tmux_error :: "exc_class \<Rightarrow> bool" where
  "is_tmux_error (Builtin name) = False"
| "is_tmux_error c = True"

text \<open>An exception message is an f-string: its literal pieces and the values it
  interpolates (\<open>{x}\<close> of a string, an integer or a float, and \<open>{x!r}\<close> of a string).
  The rendering of a float and the \<open>repr\<close> of a string are left symbolic.\<close>

datatype fpart = Lit string | StrV string | IntV int | FloatV real | ReprV string

datatype error = Exc (exc_cls: exc_class) (exc_msg: "fpart list")

section \<open>The environment: the tmux subprocess and the clock\<close>

text \<open>What \<open>subprocess.run\<close> does with one tmux command line: it raises
  \<open>FileNotFoundError\<close>, it raises \<open>subprocess.TimeoutExpired\<close>, it raises another
  exception (\<open>Raised\<close> with the name of the class and the message:
  \<open>PermissionError\<close> or another \<open>OSError\<close> when the tool cannot be executed,
  \<open>ValueError\<close> for a NUL in an argument, \<open>UnicodeDecodeError\<close> when the output
  is not valid text), or it returns the completed process.\<close>

datatype proc_result =
    FileNotFound
  | TimeoutExpired
  | Raised string string
  | Completed (returncode: int) (stdout: string) (stderr: string)

text \<open>The world holds the outcome of the \<open>n\<close>-th call of \<open>subprocess.run\<close>
  (counted from 0) and the command lines handed to it so far, oldest first. The readings of \<open>time.monotonic()\<close> are
  passed separately, as the list of the values that the successive calls return.\<close>

record world =
  procs :: "nat \<Rightarrow> proc_result"
  calls :: "string list list"

text \<open>A world given by a script: the first runs have the outcomes listed, every later
  run has the outcome \<open>d\<close>; no command line has been run yet.\<close>

definition world_of :: "proc_result list \<Rightarrow> proc_result \<Rightarrow> world" where
  "world_of ps d = \<lparr>procs = (\<lambda>n. if n < length ps then ps ! n else d), calls = []\<rparr>"

section \<open>Multiplexer gateway: \<open>_run_tmux\<close>\<close>

definition run_tmux :: "world \<Rightarrow> string list \<Rightarrow> (error + string) \<times> world" where
  "run_tmux w args =
     (let cmd = ''tmux'' # args;
          w' = w\<lparr>calls := calls w @ [cmd]\<rparr>
      in case procs w (length (calls w)) of
           FileNotFound \<Rightarrow>
             (Inl (Exc TmuxError [Lit ''tmux is not installed or not in PATH'']), w')
         | TimeoutExpired \<Rightarrow>
             (Inl (Exc TmuxError [Lit ''tmux command timed out: '', StrV (join '' '' cmd)]), w')
         | Raised name msg \<Rightarrow> (Inl (Exc (Builtin name) [StrV msg]), w')
         | Completed rc out err \<Rightarrow>
             if rc \<noteq> 0 then
               (Inl (Exc TmuxError
                  [Lit ''tmux command failed (rc='', IntV rc, Lit ''): '',
                   StrV (join '' '' cmd), Lit (LF # ''stderr: ''), StrV (py_strip err)]), w')
             else (Inr out, w'))"

section \<open>Session handle: \<open>TmuxController\<close>\<close>

text \<open>The fields of the dataclass. \<open>prompt_re\<close> stands for the compiled
  \<open>prompt_pattern\<close>: whether \<open>re.compile(prompt_pattern, re.MULTILINE).search(s)\<close>
  finds a match in \<open>s\<close>.\<close>

record controller =
  session_name :: string
  prompt_re :: "string \<Rightarrow> bool"
  default_timeout :: real
  poll_interval :: real
  target :: string

text \<open>The default \<open>prompt_pattern\<close>, \<open>[\$#>] $\<close>, compiled with \<open>re.MULTILINE\<close>:
  a search succeeds when one of the three prompt characters is followed by a space that
  ends the string or stands before a line feed.\<close>

definition default_prompt_re :: "string \<Rightarrow> bool" where
  "default_prompt_re s =
     list_ex (\<lambda>i. s ! i \<in> set ''$#>'' \<and> s ! (i + 1) = CHR '' '' \<and>
                   (i + 2 = length s \<or> s ! (i + 2) = LF))
             [0 ..< length s - 1]"

text \<open>The fields of \<open>TmuxController(name)\<close> with the default arguments;
  \<open>__post_init__\<close> sets the target to the session name.\<close>

definition default_controller :: "string \<Rightarrow> controller" where
  "default_controller name =
     \<lparr>session_name = name, prompt_re = default_prompt_re, default_timeout = 30,
      poll_interval = 3 / 10, target = name\<rparr>"

definition send_keys :: "controller \<Rightarrow> world \<Rightarrow> string \<Rightarrow> bool \<Rightarrow> (error + unit) \<times> world" where
  "send_keys ctl w txt enter =
     (let args = [''send-keys'', ''-t'', target ctl, txt] @ (if enter then [''Enter''] else [])
      in case run_tmux w args of
           (Inl e, w') \<Rightarrow> (Inl e, w')
         | (Inr out, w') \<Rightarrow> (Inr (), w'))"

definition read_buffer ::
  "controller \<Rightarrow> world \<Rightarrow> int option \<Rightarrow> bool \<Rightarrow> (error + string) \<times> world" where
  "read_buffer ctl w lines history =
     (let args = [''capture-pane'', ''-t'', target ctl, ''-p'']
                 @ (if history then [''-S'', ''-''] else [])
      in case run_tmux w args of
           (Inl e, w') \<Rightarrow> (Inl e, w')
         | (Inr raw, w') \<Rightarrow>
             (let cleaned = strip_ansi raw
              in (Inr (case lines of
                         None \<Rightarrow> cleaned
                       | Some n \<Rightarrow> join [LF] (slice_from_neg (splitlines cleaned) n)), w')))"

definition list_sessions :: "world \<Rightarrow> (error + string list) \<times> world" where
  "list_sessions w =
     (case run_tmux w [''list-sessions'', ''-F'', ''#{session_name}''] of
        (Inr out, w') \<Rightarrow> (Inr (filter (\<lambda>s. py_strip s \<noteq> []) (splitlines out)), w')
      | (Inl e, w') \<Rightarrow>
          if is_tmux_error (exc_cls e) then (Inr [], w') else (Inl e, w'))"

text \<open>The command lines that \<open>send_keys(txt, enter=True)\<close> and
  \<open>read_buffer(history=True)\<close> submit.\<close>

abbreviation send_cmd :: "controller \<Rightarrow> string \<Rightarrow> string list" where
  "send_cmd ctl txt \<equiv> [''tmux'', ''send-keys'', ''-t'', target ctl, txt, ''Enter'']"

abbreviation capture_cmd :: "controller \<Rightarrow> string list" where
  "capture_cmd ctl \<equiv> [''tmux'', ''capture-pane'', ''-t'', target ctl, ''-p'', ''-S'', ''-'']"

section \<open>Synchronous executor\<close>

subsection \<open>Output cleaning: \<open>_clean_marker_output\<close>\<close>

text \<open>\<open>prompt_prefix_re.sub("", s)\<close> for the pattern \<open>^[\$#>]\s*\<close>: the pattern is
  anchored at the start of the string, so it matches at most once.\<close>

definition strip_prompt_prefix :: "string \<Rightarrow> string" where
  "strip_prompt_prefix s =
     (case s of
        [] \<Rightarrow> []
      | c # cs \<Rightarrow> if c \<in> set ''$#>'' then dropWhile py_isspace cs else s)"

text \<open>The three tests of the loop body, each of which skips the line.\<close>

definition marker_echo_line :: "string \<Rightarrow> bool" where
  "marker_echo_line line =
     startswith (strip_prompt_prefix (py_strip line)) (''echo '' @ [CHR 0x27] @ ''__TMUX_BRIDGE_'')"

definition command_echo_line :: "string \<Rightarrow> string \<Rightarrow> bool" where
  "command_echo_line command line =
     (strip_prompt_prefix (py_strip line) = py_strip command)"

definition residual_marker_line :: "string \<Rightarrow> bool" where
  "residual_marker_line line = py_in ''__TMUX_BRIDGE_'' (py_strip line)"

definition kept_line :: "string \<Rightarrow> string \<Rightarrow> bool" where
  "kept_line command line =
     (if marker_echo_line line then False
      else if command_echo_line command line then False
      else if residual_marker_line line then False
      else True)"

definition clean_marker_output :: "string \<Rightarrow> string \<Rightarrow> string" where
  "clean_marker_output raw command =
     py_strip (join [LF] (filter (kept_line command) (splitlines raw)))"

subsection \<open>Markers\<close>

text \<open>\<open>uuid.uuid4().hex\<close>: the 128-bit value of the UUID as 32 lowercase hexadecimal
  digits, most significant first. The random UUID is an input of the model.\<close>

definition hex_digit :: "nat \<Rightarrow> char" where
  "hex_digit n = ''0123456789abcdef'' ! (n mod 16)"

definition uuid_hex :: "128 word \<Rightarrow> string" where
  "uuid_hex u = map (\<lambda>i. hex_digit (unat (drop_bit (4 * i) u))) (rev [0 ..< 32])"

definition marker_uid :: "128 word \<Rightarrow> string" where
  "marker_uid u = take 12 (uuid_hex u)"

definition start_marker :: "string \<Rightarrow> string" where
  "start_marker uid = ''__TMUX_BRIDGE_START_'' @ uid @ ''__''"

definition end_marker :: "string \<Rightarrow> string" where
  "end_marker uid = ''__TMUX_BRIDGE_END_'' @ uid @ ''__''"

definition echo_command :: "string \<Rightarrow> string" where
  "echo_command marker = ''echo '' @ [CHR 0x27] @ marker @ [CHR 0x27]"

subsection \<open>Marker protocol: \<open>_execute_with_markers\<close>\<close>

text \<open>The test and the extraction of one poll: the text between the last occurrence of
  the start marker and the last occurrence of the end marker.\<close>

definition marker_output :: "string \<Rightarrow> string \<Rightarrow> string \<Rightarrow> string option" where
  "marker_output buf sm em =
     (let start_idx = rfind buf sm;
          end_idx = rfind buf em
      in if start_idx \<noteq> -1 \<and> end_idx \<noteq> -1 \<and> end_idx > start_idx
         then Some (slice buf (nat (start_idx + int (length sm))) (nat end_idx))
         else None)"

text \<open>The polling loop. Each iteration reads the clock once; the loop is recursive in
  the list of readings, and a list that ends before the loop does gives \<open>None\<close>.
  \<open>time.sleep\<close> shows only in the later readings of the clock.\<close>

fun poll_markers ::
  "controller \<Rightarrow> string \<Rightarrow> string \<Rightarrow> string \<Rightarrow> real \<Rightarrow> real \<Rightarrow> world \<Rightarrow> real list
   \<Rightarrow> ((error + string) \<times> world \<times> real list) option" where
  "poll_markers ctl sm em command timeout deadline w [] = None"
| "poll_markers ctl sm em command timeout deadline w (t # ts) =
     (if t < deadline then
        (case read_buffer ctl w None True of
           (Inl e, w') \<Rightarrow> Some (Inl e, w', ts)
         | (Inr buf, w') \<Rightarrow>
             (case marker_output buf sm em of
                Some output \<Rightarrow> Some (Inr (clean_marker_output output command), w', ts)
              | None \<Rightarrow> poll_markers ctl sm em command timeout deadline w' ts))
      else Some (Inl (Exc CommandTimeoutError
                   [Lit ''Command did not complete within '', FloatV timeout,
                    Lit ''s: '', ReprV command]), w, ts))"

definition execute_with_markers ::
  "controller \<Rightarrow> world \<Rightarrow> real list \<Rightarrow> 128 word \<Rightarrow> string \<Rightarrow> real \<Rightarrow> real
   \<Rightarrow> ((error + string) \<times> world \<times> real list) option" where
  "execute_with_markers ctl w clk u command timeout interval =
     (let uid = marker_uid u;
          sm = start_marker uid;
          em = end_marker uid
      in case send_keys ctl w (echo_command sm) True of
           (Inl e, w1) \<Rightarrow> Some (Inl e, w1, clk)
         | (Inr _, w1) \<Rightarrow>
             (case send_keys ctl w1 command True of
                (Inl e, w2) \<Rightarrow> Some (Inl e, w2, clk)
              | (Inr _, w2) \<Rightarrow>
                  (case send_keys ctl w2 (echo_command em) True of
                     (Inl e, w3) \<Rightarrow> Some (Inl e, w3, clk)
                   | (Inr _, w3) \<Rightarrow>
                       (case clk of
                          [] \<Rightarrow> None
                        | t0 # ts \<Rightarrow>
                            poll_markers ctl sm em command timeout (t0 + timeout) w3 ts))))"

subsection \<open>Prompt-pattern fallback: \<open>_execute_with_prompt\<close>\<close>

fun poll_prompt ::
  "controller \<Rightarrow> string \<Rightarrow> string \<Rightarrow> real \<Rightarrow> real \<Rightarrow> world \<Rightarrow> real list
   \<Rightarrow> ((error + string) \<times> world \<times> real list) option" where
  "poll_prompt ctl pre_buffer command timeout deadline w [] = None"
| "poll_prompt ctl pre_buffer command timeout deadline w (t # ts) =
     (if t < deadline then
        (case read_buffer ctl w None True of
           (Inl e, w1) \<Rightarrow> Some (Inl e, w1, ts)
         | (Inr buf, w1) \<Rightarrow>
             (let new_content = drop (length pre_buffer) buf;
                  lines = splitlines new_content
              in if lines \<noteq> [] \<and> prompt_re ctl (last lines) then
                   Some (Inr (join [LF] (if length lines > 1 then butlast (tl lines) else [])),
                         w1, ts)
                 else
                   (case read_buffer ctl w1 (Some 1) False of
                      (Inl e, w2) \<Rightarrow> Some (Inl e, w2, ts)
                    | (Inr visible, w2) \<Rightarrow>
                        if prompt_re ctl visible then
                          (let output_lines = splitlines (drop (length pre_buffer) buf);
                               output_lines1 =
                                 (if output_lines \<noteq> [] then tl output_lines else output_lines);
                               output_lines2 =
                                 (if output_lines1 \<noteq> [] \<and> prompt_re ctl (last output_lines1)
                                  then butlast output_lines1 else output_lines1)
                           in Some (Inr (join [LF] output_lines2), w2, ts))
                        else poll_prompt ctl pre_buffer command timeout deadline w2 ts)))
      else Some (Inl (Exc CommandTimeoutError
                   [Lit ''Prompt not detected within '', FloatV timeout,
                    Lit ''s: '', ReprV command]), w, ts))"

definition execute_with_prompt ::
  "controller \<Rightarrow> world \<Rightarrow> real list \<Rightarrow> string \<Rightarrow> real \<Rightarrow> real
   \<Rightarrow> ((error + string) \<times> world \<times> real list) option" where
  "execute_with_prompt ctl w clk command timeout interval =
     (case read_buffer ctl w None True of
        (Inl e, w1) \<Rightarrow> Some (Inl e, w1, clk)
      | (Inr pre_buffer, w1) \<Rightarrow>
          (case send_keys ctl w1 command True of
             (Inl e, w2) \<Rightarrow> Some (Inl e, w2, clk)
           | (Inr _, w2) \<Rightarrow>
               (case clk of
                  [] \<Rightarrow> None
                | t0 # ts \<Rightarrow>
                    poll_prompt ctl pre_buffer command timeout (t0 + timeout) w2 ts)))"

subsection \<open>\<open>execute_and_wait\<close>\<close>

definition execute_and_wait ::
  "controller \<Rightarrow> world \<Rightarrow> real list \<Rightarrow> 128 word \<Rightarrow> string \<Rightarrow> real option \<Rightarrow> real option
   \<Rightarrow> bool \<Rightarrow> ((error + string) \<times> world \<times> real list) option" where
  "execute_and_wait ctl w clk u command timeout poll_iv use_markers =
     (let timeout' = (case timeout of Some x \<Rightarrow> x | None \<Rightarrow> default_timeout ctl);
          interval = (case poll_iv of Some x \<Rightarrow> x | None \<Rightarrow> poll_interval ctl)
      in if use_markers then execute_with_markers ctl w clk u command timeout' interval
         else execute_with_prompt ctl w clk command timeout' interval)"

text \<open>Notation for the statements about echoed lines: \<open>s\<close> is \<open>t\<close> after a prompt
  character and optional whitespace.\<close>

abbreviation prompt_prefixed :: "string \<Rightarrow> string \<Rightarrow> bool" where
  "prompt_prefixed s t \<equiv>
     (\<exists>p sp. p \<in> set ''$#>'' \<and> (\<forall>ch\<in>set sp. py_isspace ch) \<and> s = p # sp @ t)"

text \<open>The command line of \<open>read_buffer(lines=1)\<close>, the pieces of the message of a
  \<open>CommandTimeoutError\<close>, and the timeout that \<open>execute_and_wait\<close> uses.\<close>

abbreviation timeout_msg :: "string \<Rightarrow> real \<Rightarrow> string \<Rightarrow> fpart list" where
  "timeout_msg what T command \<equiv> [Lit what, FloatV T, Lit ''s: '', ReprV command]"



section \<open>Theorems\<close>

subsection \<open>Facts about the gateway and the primitives built on it\<close>

lemma run_tmux_eq_ok:
  "procs w (length (calls w)) = Completed 0 out err \<Longrightarrow>
   run_tmux w args = (Inr out, w\<lparr>calls := calls w @ [''tmux'' # args]\<rparr>)"
  by (simp add: run_tmux_def Let_def)

lemma run_tmux_snd: "snd (run_tmux w args) = w\<lparr>calls := calls w @ [''tmux'' # args]\<rparr>"
  by (simp add: run_tmux_def Let_def split: proc_result.splits)

lemma run_tmux_error_class:
  "run_tmux w args = (Inl e, w') \<Longrightarrow> exc_cls e \<noteq> CommandTimeoutError"
  by (auto simp: run_tmux_def Let_def split: proc_result.splits if_splits)

lemma send_keys_snd:
  "snd (send_keys ctl w txt True) = w\<lparr>calls := calls w @ [send_cmd ctl txt]\<rparr>"
  using run_tmux_snd [of w "[''send-keys'', ''-t'', target ctl, txt, ''Enter'']"]
  by (auto simp: send_keys_def split: prod.splits sum.splits)

lemma send_keys_error_class:
  "send_keys ctl w txt enter = (Inl e, w') \<Longrightarrow> exc_cls e \<noteq> CommandTimeoutError"
  by (auto simp: send_keys_def Let_def split: prod.splits sum.splits dest: run_tmux_error_class)

lemma send_keys_ok:
  "procs w (length (calls w)) = Completed 0 out err \<Longrightarrow>
   send_keys ctl w txt True = (Inr (), w\<lparr>calls := calls w @ [send_cmd ctl txt]\<rparr>)"
  by (simp add: send_keys_def run_tmux_eq_ok)

lemma read_buffer_snd:
  "snd (read_buffer ctl w None True) = w\<lparr>calls := calls w @ [capture_cmd ctl]\<rparr>"
  using run_tmux_snd [of w "[''capture-pane'', ''-t'', target ctl, ''-p'', ''-S'', ''-'']"]
  by (auto simp: read_buffer_def Let_def split: prod.splits sum.splits)



lemma read_buffer_ok:
  "procs w (length (calls w)) = Completed 0 raw err \<Longrightarrow>
   fst (read_buffer ctl w lines history) =
     Inr (case lines of None \<Rightarrow> strip_ansi raw
          | Some n \<Rightarrow> join [LF] (slice_from_neg (splitlines (strip_ansi raw)) n))"
  by (simp add: read_buffer_def run_tmux_def Let_def split: prod.splits)

lemma slice_from_neg_zero: "slice_from_neg xs 0 = xs"
  by (simp add: slice_from_neg_def)

lemma slice_from_neg_pos:
  "0 < n \<Longrightarrow> slice_from_neg xs n = drop (length xs - nat n) xs"
  by (auto simp: slice_from_neg_def max_def intro!: arg_cong2[where f=drop])

lemma join_eq_Nil: "sep \<noteq> [] \<Longrightarrow> join sep ls = [] \<longleftrightarrow> ls = [] \<or> ls = [[]]"
  by (induction sep ls rule: join.induct) auto

lemma poll_markers_calls:
  "poll_markers ctl sm em command timeout deadline w ts = Some (r, w', ts') \<Longrightarrow>
   \<exists>k. w' = w\<lparr>calls := calls w @ replicate k (capture_cmd ctl)\<rparr>"
proof (induction ts arbitrary: w)
  case Nil
  then show ?case by simp
next
  case (Cons t ts)
  show ?case
  proof (cases "t < deadline")
    case False
    with Cons.prems have "w' = w" by simp
    then have "w' = w\<lparr>calls := calls w @ replicate 0 (capture_cmd ctl)\<rparr>" by simp
    then show ?thesis by blast
  next
    case True
    obtain res w1 where rb: "read_buffer ctl w None True = (res, w1)"
      by (cases "read_buffer ctl w None True")
    have w1: "w1 = w\<lparr>calls := calls w @ [capture_cmd ctl]\<rparr>"
      using read_buffer_snd [of ctl w] rb by simp
    have one: "w1 = w\<lparr>calls := calls w @ replicate 1 (capture_cmd ctl)\<rparr>" using w1 by simp
    show ?thesis
    proof (cases res)
      case (Inl e)
      with Cons.prems True rb have "w' = w1" by simp
      with one show ?thesis by blast
    next
      case (Inr buf)
      show ?thesis
      proof (cases "marker_output buf sm em")
        case (Some outp)
        with Cons.prems True rb Inr have "w' = w1" by simp
        with one show ?thesis by blast
      next
        case None
        with Cons.prems True rb Inr
        have "poll_markers ctl sm em command timeout deadline w1 ts = Some (r, w', ts')" by simp
        from Cons.IH [OF this] obtain k
          where "w' = w1\<lparr>calls := calls w1 @ replicate k (capture_cmd ctl)\<rparr>" by blast
        with w1 have "w' = w\<lparr>calls := calls w @ replicate (Suc k) (capture_cmd ctl)\<rparr>" by simp
        then show ?thesis by blast
      qed
    qed
  qed
qed













lemma marker_run_calls:
  assumes run: "execute_and_wait ctl w clk u command timeout iv True = Some (r, w', clk')"
  shows "\<exists>n k. 1 \<le> n \<and> n \<le> 3 \<and>
           calls w' = calls w
             @ take n [send_cmd ctl (echo_command (start_marker (marker_uid u))),
                       send_cmd ctl command,
                       send_cmd ctl (echo_command (end_marker (marker_uid u)))]
             @ replicate k (capture_cmd ctl) \<and>
           (n < 3 \<longrightarrow> k = 0 \<and> (\<exists>e. r = Inl e \<and> exc_cls e \<noteq> CommandTimeoutError)) \<and>
           ((\<forall>i<3. \<exists>out err. procs w (length (calls w) + i) = Completed 0 out err)
              \<longrightarrow> n = 3)"
proof -
  let ?sm = "start_marker (marker_uid u)" and ?em = "end_marker (marker_uid u)"
  let ?T = "case timeout of Some x \<Rightarrow> x | None \<Rightarrow> default_timeout ctl"
  let ?c1 = "send_cmd ctl (echo_command ?sm)" and ?c2 = "send_cmd ctl command"
  let ?c3 = "send_cmd ctl (echo_command ?em)"
  let ?ok = "\<forall>i<3. \<exists>out err. procs w (length (calls w) + i) = Completed 0 out err"
  obtain r1 w1 where s1: "send_keys ctl w (echo_command ?sm) True = (r1, w1)"
    by (cases "send_keys ctl w (echo_command ?sm) True")
  have w1: "w1 = w\<lparr>calls := calls w @ [?c1]\<rparr>"
    using send_keys_snd [of ctl w "echo_command ?sm"] s1 by simp
  obtain r2 w2 where s2: "send_keys ctl w1 command True = (r2, w2)"
    by (cases "send_keys ctl w1 command True")
  have w2: "w2 = w\<lparr>calls := calls w @ [?c1, ?c2]\<rparr>"
    using send_keys_snd [of ctl w1 command] s2 w1 by simp
  obtain r3 w3 where s3: "send_keys ctl w2 (echo_command ?em) True = (r3, w3)"
    by (cases "send_keys ctl w2 (echo_command ?em) True")
  have w3: "w3 = w\<lparr>calls := calls w @ [?c1, ?c2, ?c3]\<rparr>"
    using send_keys_snd [of ctl w2 "echo_command ?em"] s3 w2 by simp
  have ex: "execute_with_markers ctl w clk u command ?T
              (case iv of Some x \<Rightarrow> x | None \<Rightarrow> poll_interval ctl) = Some (r, w', clk')"
    using run by (simp add: execute_and_wait_def)
  have ok1: "r1 = Inr ()" if ?ok
  proof -
    have "(0::nat) < 3" by simp
    with that have "\<exists>out err. procs w (length (calls w) + 0) = Completed 0 out err" by blast
    then obtain out err where "procs w (length (calls w)) = Completed 0 out err" by auto
    from send_keys_ok [OF this] s1 show ?thesis by simp
  qed
  have ok2: "r2 = Inr ()" if ?ok
  proof -
    have "(1::nat) < 3" by simp
    with that have "\<exists>out err. procs w (length (calls w) + 1) = Completed 0 out err" by blast
    then obtain out err where "procs w (length (calls w) + 1) = Completed 0 out err" by blast
    then have "procs w1 (length (calls w1)) = Completed 0 out err" using w1 by simp
    from send_keys_ok [OF this] s2 show ?thesis by simp
  qed
  have ok3: "r3 = Inr ()" if ?ok
  proof -
    have "(2::nat) < 3" by simp
    with that have "\<exists>out err. procs w (length (calls w) + 2) = Completed 0 out err" by blast
    then obtain out err where "procs w (length (calls w) + 2) = Completed 0 out err" by blast
    then have "procs w2 (length (calls w2)) = Completed 0 out err" using w2 by simp
    from send_keys_ok [OF this] s3 show ?thesis by simp
  qed
  show ?thesis
  proof (cases r1)
    case (Inl e)
    with ex s1 have res: "r = Inl e" "w' = w1" by (simp_all add: execute_with_markers_def Let_def)
    have cls: "exc_cls e \<noteq> CommandTimeoutError" using send_keys_error_class s1 Inl by blast
    have "calls w' = calls w @ take 1 [?c1, ?c2, ?c3] @ replicate 0 (capture_cmd ctl)"
      using res w1 by simp
    moreover have "\<not> ?ok"
    proof
      assume ?ok
      from ok1 [OF this] Inl show False by simp
    qed
    ultimately show ?thesis using res cls
      by (intro exI [of _ 1] exI [of _ 0]) simp
  next
    case i1: (Inr u1)
    show ?thesis
    proof (cases r2)
      case (Inl e)
      with ex s1 s2 i1 have res: "r = Inl e" "w' = w2" by (simp_all add: execute_with_markers_def Let_def)
      have cls: "exc_cls e \<noteq> CommandTimeoutError" using send_keys_error_class s2 Inl by blast
      have "calls w' = calls w @ take 2 [?c1, ?c2, ?c3] @ replicate 0 (capture_cmd ctl)"
        using res w2 by simp
      moreover have "\<not> ?ok"
      proof
        assume ?ok
        from ok2 [OF this] Inl show False by simp
      qed
      ultimately show ?thesis using res cls
        by (intro exI [of _ 2] exI [of _ 0]) simp
    next
      case i2: (Inr u2)
      show ?thesis
      proof (cases r3)
        case (Inl e)
        with ex s1 s2 s3 i1 i2 have res: "r = Inl e" "w' = w3"
          by (simp_all add: execute_with_markers_def Let_def)
        have "calls w' = calls w @ take 3 [?c1, ?c2, ?c3] @ replicate 0 (capture_cmd ctl)"
          using res w3 by simp
        then show ?thesis
          by (intro exI [of _ 3] exI [of _ 0]) simp
      next
        case i3: (Inr u3)
        show ?thesis
        proof (cases clk)
          case Nil
          with ex s1 s2 s3 i1 i2 i3 show ?thesis by (simp add: execute_with_markers_def Let_def)
        next
          case (Cons t0 ts)
          with ex s1 s2 s3 i1 i2 i3
          have "poll_markers ctl ?sm ?em command ?T (t0 + ?T) w3 ts = Some (r, w', clk')"
            by (simp add: execute_with_markers_def Let_def)
          from poll_markers_calls [OF this] obtain k
            where "w' = w3\<lparr>calls := calls w3 @ replicate k (capture_cmd ctl)\<rparr>" by blast
          with w3 have "calls w' = calls w @ take 3 [?c1, ?c2, ?c3] @ replicate k (capture_cmd ctl)"
            by simp
          then show ?thesis
            by (intro exI [of _ 3] exI [of _ k]) simp
        qed
      qed
    qed
  qed
qed

text \<open>A run on a pane that is busy with another command: every tmux call succeeds and
  every capture shows \<open>$ sleep 9\<close>; the clock reads 0, 1 and 31 seconds.\<close>

lemma marker_output_short:
  "length buf < length sm \<Longrightarrow> marker_output buf sm em = None"
  by (auto simp: marker_output_def rfind_def occurs_at_def filter_empty_conv split: list.splits)

lemma busy_pane_run:
  "execute_and_wait (default_controller ''main'') (world_of [] (Completed 0 ''$ sleep 9'' []))
     [0, 1, 31] 0 ''ls'' None None True
   = Some (Inl (Exc CommandTimeoutError
                  (timeout_msg ''Command did not complete within '' 30 ''ls'')),
           (world_of [] (Completed 0 ''$ sleep 9'' []))
             \<lparr>calls := [send_cmd (default_controller ''main'') (echo_command (start_marker (marker_uid 0))),
                        send_cmd (default_controller ''main'') ''ls'',
                        send_cmd (default_controller ''main'') (echo_command (end_marker (marker_uid 0))),
                        capture_cmd (default_controller ''main'')]\<rparr>,
           [])"
  by (simp add: execute_and_wait_def execute_with_markers_def send_keys_def run_tmux_def
        read_buffer_def world_of_def default_controller_def marker_output_short start_marker_def
        ESC_def Let_def)


lemma hex_digit_in: "hex_digit n \<in> set ''0123456789abcdef''"
  unfolding hex_digit_def by (rule nth_mem) simp

lemma length_uuid_hex: "length (uuid_hex u) = 32"
  by (simp add: uuid_hex_def)

lemma length_marker_uid: "length (marker_uid u) = 12"
  by (simp add: marker_uid_def length_uuid_hex)

lemma marker_uid_hex: "list_all (\<lambda>c. c \<in> set ''0123456789abcdef'') (marker_uid u)"
proof -
  have "\<forall>c\<in>set (uuid_hex u). c \<in> set ''0123456789abcdef''"
    unfolding uuid_hex_def using hex_digit_in by auto
  then have "\<forall>c\<in>set (marker_uid u). c \<in> set ''0123456789abcdef''"
    unfolding marker_uid_def by (meson in_set_takeD)
  then show ?thesis by (simp add: list_all_iff)
qed

lemma marker_uid_zero: "marker_uid 0 = ''000000000000''"
  by (simp add: marker_uid_def uuid_hex_def hex_digit_def upt_rec)


subsection \<open>Facts about \<open>rfind\<close> and the extraction between markers\<close>

lemma filter_rev_upt_Nil: "filter P (rev [0..<n]) = [] \<longleftrightarrow> (\<forall>j<n. \<not> P j)"
  by (auto simp: filter_empty_conv)

lemma filter_rev_upt_Cons:
  "filter P (rev [0..<n]) = i # rest \<Longrightarrow> P i \<and> i < n \<and> (\<forall>j<n. P j \<longrightarrow> j \<le> i)"
proof (induction n)
  case 0
  then show ?case by simp
next
  case (Suc n)
  show ?case
  proof (cases "P n")
    case True
    with Suc.prems have "i = n" by simp
    with True show ?thesis by auto
  next
    case False
    with Suc.prems have "filter P (rev [0..<n]) = i # rest" by simp
    from Suc.IH [OF this] False show ?thesis
      by (metis less_Suc_eq)
  qed
qed

lemma occurs_at_bound: "occurs_at s sub j \<Longrightarrow> j < Suc (length s)"
  by (simp add: occurs_at_def)

lemma rfind_none: "rfind s sub = -1 \<longleftrightarrow> (\<forall>j. \<not> occurs_at s sub j)"
proof
  assume "rfind s sub = -1"
  then have "filter (occurs_at s sub) (rev [0..<Suc (length s)]) = []"
    unfolding rfind_def by (cases "filter (occurs_at s sub) (rev [0..<Suc (length s)])") simp_all
  then have "\<forall>j<Suc (length s). \<not> occurs_at s sub j"
    using filter_rev_upt_Nil [of "occurs_at s sub" "Suc (length s)"] by blast
  then show "\<forall>j. \<not> occurs_at s sub j" using occurs_at_bound by blast
next
  assume "\<forall>j. \<not> occurs_at s sub j"
  then have "filter (occurs_at s sub) (rev [0..<Suc (length s)]) = []"
    using filter_rev_upt_Nil [of "occurs_at s sub" "Suc (length s)"] by blast
  then show "rfind s sub = -1" unfolding rfind_def by (simp only: list.case)
qed

lemma rfind_some:
  "rfind s sub = int i \<longleftrightarrow> occurs_at s sub i \<and> (\<forall>j. occurs_at s sub j \<longrightarrow> j \<le> i)"
proof
  assume r: "rfind s sub = int i"
  then obtain rest where "filter (occurs_at s sub) (rev [0..<Suc (length s)]) = i # rest"
    unfolding rfind_def by (cases "filter (occurs_at s sub) (rev [0..<Suc (length s)])") simp_all
  from filter_rev_upt_Cons [OF this]
  show "occurs_at s sub i \<and> (\<forall>j. occurs_at s sub j \<longrightarrow> j \<le> i)"
    using occurs_at_bound by blast
next
  assume a: "occurs_at s sub i \<and> (\<forall>j. occurs_at s sub j \<longrightarrow> j \<le> i)"
  then have "rfind s sub \<noteq> -1" by (simp add: rfind_none) blast
  then obtain k rest where f: "filter (occurs_at s sub) (rev [0..<Suc (length s)]) = k # rest"
    unfolding rfind_def by (cases "filter (occurs_at s sub) (rev [0..<Suc (length s)])") simp_all
  from filter_rev_upt_Cons [OF this]
  have "occurs_at s sub k" "\<forall>j<Suc (length s). occurs_at s sub j \<longrightarrow> j \<le> k" by blast+
  with a occurs_at_bound have "k = i" by (meson le_antisym)
  with f show "rfind s sub = int i" unfolding rfind_def by (simp only: list.case)
qed

lemma rfind_cases:
  obtains "rfind s sub = -1" "\<forall>j. \<not> occurs_at s sub j"
  | i where "rfind s sub = int i" "occurs_at s sub i" "\<forall>j. occurs_at s sub j \<longrightarrow> j \<le> i"
proof (cases "filter (occurs_at s sub) (rev [0..<Suc (length s)])")
  case Nil
  then have "rfind s sub = -1" unfolding rfind_def by (simp only: list.case)
  then show ?thesis using that(1) rfind_none by blast
next
  case (Cons i rest)
  then have "rfind s sub = int i" unfolding rfind_def by (simp only: list.case)
  then show ?thesis using that(2) rfind_some by blast
qed

lemma occurs_at_append: "occurs_at (p @ s) sub (length p + i) = occurs_at s sub i"
  by (simp add: occurs_at_def)

lemma occurs_at_append_ge:
  "occurs_at (p @ s) sub j \<Longrightarrow> length p \<le> j \<Longrightarrow> occurs_at s sub (j - length p)"
  using occurs_at_append [of p s sub "j - length p"] by simp

lemma rfind_append:
  assumes "occurs_at s sub i0"
  shows "rfind (p @ s) sub = int (length p) + rfind s sub"
proof -
  from assms have "rfind s sub \<noteq> -1" by (simp add: rfind_none) blast
  then obtain i where i: "rfind s sub = int i" "occurs_at s sub i"
    "\<forall>j. occurs_at s sub j \<longrightarrow> j \<le> i"
    by (rule_tac s = s and sub = sub in rfind_cases) auto
  have "occurs_at (p @ s) sub (length p + i)" using i(2) by (simp add: occurs_at_append)
  moreover have "\<forall>j. occurs_at (p @ s) sub j \<longrightarrow> j \<le> length p + i"
  proof (intro allI impI)
    fix j assume o: "occurs_at (p @ s) sub j"
    show "j \<le> length p + i"
    proof (cases "length p \<le> j")
      case True
      from occurs_at_append_ge [OF o True] i(3) have "j - length p \<le> i" by blast
      with True show ?thesis by simp
    next
      case False
      then show ?thesis by simp
    qed
  qed
  ultimately have "rfind (p @ s) sub = int (length p + i)"
    using rfind_some [of "p @ s" sub "length p + i"] by blast
  with i(1) show ?thesis by simp
qed

lemma slice_append: "slice (p @ s) (length p + a) (length p + b) = slice s a b"
  by (simp add: slice_def)

lemma marker_output_iff:
  "marker_output buf sm em = Some out \<longleftrightarrow>
     (\<exists>si ei. occurs_at buf sm si \<and> (\<forall>i. occurs_at buf sm i \<longrightarrow> i \<le> si) \<and>
              occurs_at buf em ei \<and> (\<forall>j. occurs_at buf em j \<longrightarrow> j \<le> ei) \<and>
              si < ei \<and> out = slice buf (si + length sm) ei)"
proof
  assume m: "marker_output buf sm em = Some out"
  then have ns: "rfind buf sm \<noteq> -1" and ne: "rfind buf em \<noteq> -1"
    and lt: "rfind buf sm < rfind buf em"
    and out: "out = slice buf (nat (rfind buf sm + int (length sm))) (nat (rfind buf em))"
    by (auto simp: marker_output_def Let_def split: if_splits)
  from ns obtain si where si: "rfind buf sm = int si" "occurs_at buf sm si"
    "\<forall>j. occurs_at buf sm j \<longrightarrow> j \<le> si"
    by (rule_tac s = buf and sub = sm in rfind_cases) auto
  from ne obtain ei where ei: "rfind buf em = int ei" "occurs_at buf em ei"
    "\<forall>j. occurs_at buf em j \<longrightarrow> j \<le> ei"
    by (rule_tac s = buf and sub = em in rfind_cases) auto
  from lt si(1) ei(1) have "si < ei" by simp
  moreover from out si(1) ei(1) have "out = slice buf (si + length sm) ei"
    by (simp add: nat_add_distrib)
  ultimately show "\<exists>si ei. occurs_at buf sm si \<and> (\<forall>i. occurs_at buf sm i \<longrightarrow> i \<le> si) \<and>
              occurs_at buf em ei \<and> (\<forall>j. occurs_at buf em j \<longrightarrow> j \<le> ei) \<and>
              si < ei \<and> out = slice buf (si + length sm) ei"
    using si(2,3) ei(2,3) by blast
next
  assume "\<exists>si ei. occurs_at buf sm si \<and> (\<forall>i. occurs_at buf sm i \<longrightarrow> i \<le> si) \<and>
              occurs_at buf em ei \<and> (\<forall>j. occurs_at buf em j \<longrightarrow> j \<le> ei) \<and>
              si < ei \<and> out = slice buf (si + length sm) ei"
  then obtain si ei where s: "occurs_at buf sm si \<and> (\<forall>i. occurs_at buf sm i \<longrightarrow> i \<le> si)"
    and e: "occurs_at buf em ei \<and> (\<forall>j. occurs_at buf em j \<longrightarrow> j \<le> ei)"
    and lt: "si < ei" and out: "out = slice buf (si + length sm) ei" by blast
  from s have rs: "rfind buf sm = int si" using rfind_some [of buf sm si] by blast
  from e have re: "rfind buf em = int ei" using rfind_some [of buf em ei] by blast
  from rs re lt out show "marker_output buf sm em = Some out"
    by (simp add: marker_output_def Let_def nat_add_distrib)
qed

lemma marker_output_stale_prefix:
  assumes "occurs_at buf sm i0" "occurs_at buf em j0"
  shows "marker_output (stale @ buf) sm em = marker_output buf sm em"
proof -
  from assms(1) have "rfind buf sm \<noteq> -1" by (simp add: rfind_none) blast
  then obtain si where si: "rfind buf sm = int si"
    by (rule_tac s = buf and sub = sm in rfind_cases) auto
  from assms(2) have "rfind buf em \<noteq> -1" by (simp add: rfind_none) blast
  then obtain ei where ei: "rfind buf em = int ei"
    by (rule_tac s = buf and sub = em in rfind_cases) auto
  have "rfind (stale @ buf) sm = int (length stale + si)"
    using rfind_append [OF assms(1), of stale] si by simp
  moreover have "rfind (stale @ buf) em = int (length stale + ei)"
    using rfind_append [OF assms(2), of stale] ei by simp
  moreover have "slice (stale @ buf) (length stale + si + length sm) (length stale + ei)
      = slice buf (si + length sm) ei"
    using slice_append [of stale buf "si + length sm" ei] by (simp add: add.assoc)
  ultimately show ?thesis using si ei
    by (simp add: marker_output_def Let_def nat_add_distrib)
qed

lemma occurs_at_split:
  "occurs_at s sub i \<Longrightarrow> s = take i s @ sub @ drop (i + length sub) s"
proof -
  assume o: "occurs_at s sub i"
  have "drop i s = take (length sub) (drop i s) @ drop (length sub) (drop i s)"
    by (rule append_take_drop_id [symmetric])
  also have "\<dots> = sub @ drop (i + length sub) s" using o by (simp add: occurs_at_def add.commute)
  finally have "drop i s = sub @ drop (i + length sub) s" .
  then have "take i s @ drop i s = take i s @ sub @ drop (i + length sub) s" by simp
  then show ?thesis by simp
qed

lemma between_markers:
  assumes s: "occurs_at buf sm si" and e: "occurs_at buf em ei" and le: "si + length sm \<le> ei"
  shows "buf = take si buf @ sm @ slice buf (si + length sm) ei @ em @ drop (ei + length em) buf"
proof -
  let ?a = "si + length sm"
  have 1: "buf = take si buf @ sm @ drop ?a buf" by (rule occurs_at_split [OF s])
  have 2: "drop ?a buf = take (ei - ?a) (drop ?a buf) @ drop (ei - ?a) (drop ?a buf)"
    by (rule append_take_drop_id [symmetric])
  have 3: "drop (ei - ?a) (drop ?a buf) = drop ei buf" using le by simp
  have "drop ei buf = take (length em) (drop ei buf) @ drop (length em) (drop ei buf)"
    by (rule append_take_drop_id [symmetric])
  also have "\<dots> = em @ drop (ei + length em) buf"
    using e by (simp add: occurs_at_def add.commute)
  finally have 4: "drop ei buf = em @ drop (ei + length em) buf" .
  from 2 3 4 have "drop ?a buf = slice buf ?a ei @ em @ drop (ei + length em) buf"
    by (simp only: slice_def)
  with 1 show ?thesis by simp
qed

subsection \<open>Facts about line splitting, trimming and the line filter\<close>

lemma splitlines_from_plain:
  "\<forall>c\<in>set l. \<not> is_linebreak c \<Longrightarrow> splitlines_from cur (l @ rest) = splitlines_from (cur @ l) rest"
proof (induction l arbitrary: cur)
  case Nil
  then show ?case by simp
next
  case (Cons a l)
  then have "\<not> is_linebreak a" by simp
  then have "a \<noteq> CR" by (auto simp: is_linebreak_def CR_def)
  with Cons \<open>\<not> is_linebreak a\<close> show ?case by simp
qed

lemma is_linebreak_LF: "is_linebreak LF" "LF \<noteq> CR"
  by (simp_all add: is_linebreak_def LF_def CR_def)

lemma splitlines_join:
  "\<forall>l\<in>set ls. \<forall>c\<in>set l. \<not> is_linebreak c \<Longrightarrow> (ls \<noteq> [] \<longrightarrow> last ls \<noteq> []) \<Longrightarrow>
   splitlines (join [LF] ls) = ls"
proof (induction "[LF]" ls rule: join.induct)
  case 1
  then show ?case by (simp add: splitlines_def)
next
  case (2 l)
  then have "splitlines_from [] (l @ []) = splitlines_from ([] @ l) []"
    by (intro splitlines_from_plain) simp
  with 2 show ?case by (simp add: splitlines_def)
next
  case (3 l m ls)
  from 3(2) have pl: "\<forall>c\<in>set l. \<not> is_linebreak c" by simp
  have "splitlines (join [LF] (l # m # ls)) = splitlines_from [] (l @ LF # join [LF] (m # ls))"
    by (simp add: splitlines_def)
  also have "\<dots> = splitlines_from ([] @ l) (LF # join [LF] (m # ls))"
    by (rule splitlines_from_plain [OF pl])
  also have "\<dots> = l # splitlines (join [LF] (m # ls))"
    using is_linebreak_LF by (simp add: splitlines_def)
  also have "splitlines (join [LF] (m # ls)) = m # ls"
    using 3 by simp
  finally show ?case .
qed

lemma py_strip_id:
  "s \<noteq> [] \<Longrightarrow> \<not> py_isspace (hd s) \<Longrightarrow> \<not> py_isspace (last s) \<Longrightarrow> py_strip s = s"
proof -
  assume ne: "s \<noteq> []" and h: "\<not> py_isspace (hd s)" and l: "\<not> py_isspace (last s)"
  from ne h have 1: "dropWhile py_isspace s = s" by (cases s) simp_all
  from ne l have "\<not> py_isspace (hd (rev s))" by (simp add: hd_rev)
  with ne have "dropWhile py_isspace (rev s) = rev s" by (cases "rev s") simp_all
  with 1 show ?thesis by (simp add: py_strip_def)
qed

lemma join_eq_Nil_iff: "join [LF] ls = [] \<longleftrightarrow> ls = [] \<or> ls = [[]]"
  by (induction "[LF]" ls rule: join.induct) auto

lemma hd_join: "ls \<noteq> [] \<Longrightarrow> hd ls \<noteq> [] \<Longrightarrow> hd (join [LF] ls) = hd (hd ls)"
  by (induction "[LF]" ls rule: join.induct) auto

lemma last_join: "ls \<noteq> [] \<Longrightarrow> last ls \<noteq> [] \<Longrightarrow> last (join [LF] ls) = last (last ls)"
proof (induction "[LF]" ls rule: join.induct)
  case (3 l m ls)
  then have "join [LF] (m # ls) \<noteq> []" by (auto simp: join_eq_Nil_iff)
  with 3 show ?case by simp
qed auto

lemma join_nonempty: "ls \<noteq> [] \<Longrightarrow> hd ls \<noteq> [] \<Longrightarrow> join [LF] ls \<noteq> []"
  by (induction "[LF]" ls rule: join.induct) auto

lemma marker_echo_line_nonempty: "marker_echo_line l \<Longrightarrow> l \<noteq> []"
  by (auto simp: marker_echo_line_def startswith_def py_strip_def strip_prompt_prefix_def)

lemma not_kept_marker_echo: "marker_echo_line l \<Longrightarrow> \<not> kept_line command l"
  by (simp add: kept_line_def)

lemma not_kept_command_echo: "command_echo_line command l \<Longrightarrow> \<not> kept_line command l"
  by (simp add: kept_line_def)

lemma py_in_iff: "py_in sub s \<longleftrightarrow> (\<exists>u v. s = u @ sub @ v)"
proof
  assume "py_in sub s"
  then obtain i where "occurs_at s sub i" by (auto simp: py_in_def list_ex_iff)
  from occurs_at_split [OF this] show "\<exists>u v. s = u @ sub @ v" by blast
next
  assume "\<exists>u v. s = u @ sub @ v"
  then obtain u v where s: "s = u @ sub @ v" by blast
  then have "occurs_at s sub (length u)" by (simp add: occurs_at_def)
  moreover from s have "length u < Suc (length s)" by simp
  ultimately show "py_in sub s" unfolding py_in_def list_ex_iff
    by (metis atLeastLessThan_iff set_upt zero_le)
qed

lemma dropWhile_keeps:
  "\<not> P x \<Longrightarrow> \<exists>u'. dropWhile P (u @ x # v) = u' @ x # v"
  by (cases "\<forall>c\<in>set u. P c") (auto simp: dropWhile_append)

lemma py_in_strip:
  assumes "py_in sub s" "sub \<noteq> []" "\<forall>c\<in>set sub. \<not> py_isspace c"
  shows "py_in sub (py_strip s)"
proof -
  from assms(1) obtain u v where s: "s = u @ sub @ v" by (auto simp: py_in_iff)
  from assms(2) obtain x xs where x: "sub = x # xs" by (cases sub) auto
  from assms(2) obtain ys y where y: "sub = ys @ [y]" by (cases sub rule: rev_cases) auto
  from x assms(3) have "\<not> py_isspace x" by simp
  from dropWhile_keeps [of py_isspace x u "xs @ v", OF this] obtain u' where
    1: "dropWhile py_isspace s = u' @ sub @ v" using s x by auto
  from y assms(3) have "\<not> py_isspace y" by simp
  from dropWhile_keeps [of py_isspace y "rev v" "rev ys @ rev u'", OF this] obtain v' where
    "dropWhile py_isspace (rev v @ y # rev ys @ rev u') = v' @ y # rev ys @ rev u'" by blast
  moreover have "rev (dropWhile py_isspace s) = rev v @ y # rev ys @ rev u'"
    using 1 y by simp
  ultimately have "py_strip s = rev (v' @ y # rev ys @ rev u')"
    by (simp add: py_strip_def)
  then have "py_strip s = u' @ sub @ rev v'" using y by simp
  then show ?thesis unfolding py_in_iff by blast
qed

lemma residual_marker_dropped:
  "py_in ''__TMUX_BRIDGE_'' l \<Longrightarrow> \<not> kept_line command l"
proof -
  assume "py_in ''__TMUX_BRIDGE_'' l"
  then have "py_in ''__TMUX_BRIDGE_'' (py_strip l)"
    by (rule py_in_strip) (simp_all add: py_isspace_def)
  then show ?thesis by (simp add: kept_line_def residual_marker_line_def)
qed

lemma clean_block:
  assumes e1: "marker_echo_line e1" and c: "command_echo_line command c"
    and e2: "marker_echo_line e2"
    and single: "\<forall>l\<in>set (e1 # c # gs @ [e2]). \<forall>ch\<in>set l. \<not> is_linebreak ch"
    and gs: "gs \<noteq> []" "\<forall>g\<in>set gs. kept_line command g"
    and first: "hd gs \<noteq> []" "\<not> py_isspace (hd (hd gs))"
    and final: "last gs \<noteq> []" "\<not> py_isspace (last (last gs))"
  shows "clean_marker_output (join [LF] (e1 # c # gs @ [e2])) command = join [LF] gs"
proof -
  have "last (e1 # c # gs @ [e2]) \<noteq> []" using marker_echo_line_nonempty [OF e2] by simp
  with single have "splitlines (join [LF] (e1 # c # gs @ [e2])) = e1 # c # gs @ [e2]"
    by (intro splitlines_join) blast+
  moreover have "filter (kept_line command) (e1 # c # gs @ [e2]) = gs"
    using not_kept_marker_echo [OF e1] not_kept_command_echo [OF c] not_kept_marker_echo [OF e2]
      gs(2) by (simp add: filter_id_conv)
  moreover have "py_strip (join [LF] gs) = join [LF] gs"
    using gs(1) first final
    by (intro py_strip_id) (simp_all add: join_nonempty hd_join last_join)
  ultimately show ?thesis by (simp add: clean_marker_output_def)
qed

lemma rev_dropWhile_split:
  "y = rev (dropWhile P (rev y)) @ rev (takeWhile P (rev y))"
proof -
  have "rev y = takeWhile P (rev y) @ dropWhile P (rev y)"
    by (rule takeWhile_dropWhile_id [symmetric])
  then have "rev (rev y) = rev (takeWhile P (rev y) @ dropWhile P (rev y))"
    by (rule arg_cong)
  then show ?thesis by (simp only: rev_rev_ident rev_append)
qed

lemma py_strip_split: "\<exists>a b. s = a @ py_strip s @ b"
proof -
  let ?y = "dropWhile py_isspace s"
  have "s = takeWhile py_isspace s @ ?y" by simp
  moreover have "?y = py_strip s @ rev (takeWhile py_isspace (rev ?y))"
    unfolding py_strip_def by (rule rev_dropWhile_split)
  ultimately have "s = takeWhile py_isspace s @ py_strip s @ rev (takeWhile py_isspace (rev ?y))"
    by simp
  then show ?thesis by blast
qed

lemma py_strip_no_leading: "dropWhile py_isspace (py_strip s) = py_strip s"
proof (cases "py_strip s")
  case Nil
  then show ?thesis by simp
next
  case (Cons x xs)
  let ?y = "dropWhile py_isspace s"
  have y: "?y = py_strip s @ rev (takeWhile py_isspace (rev ?y))"
    unfolding py_strip_def by (rule rev_dropWhile_split)
  with Cons have "?y \<noteq> []" "hd ?y = x" by (metis append_is_Nil_conv list.distinct(1), metis hd_append2 list.distinct(1) list.sel(1))
  then have "\<not> py_isspace x" using hd_dropWhile [of py_isspace s] by auto
  with Cons show ?thesis by simp
qed

lemma strip_prompt_prefix_split: "\<exists>a. s = a @ strip_prompt_prefix s"
proof (cases s)
  case Nil
  then show ?thesis by (simp add: strip_prompt_prefix_def)
next
  case (Cons c cs)
  show ?thesis
  proof (cases "c \<in> set ''$#>''")
    case True
    then have "strip_prompt_prefix s = dropWhile py_isspace cs"
      using Cons by (simp add: strip_prompt_prefix_def)
    then have "s = (c # takeWhile py_isspace cs) @ strip_prompt_prefix s" using Cons by simp
    then show ?thesis by blast
  next
    case False
    then have "strip_prompt_prefix s = s" using Cons by (simp add: strip_prompt_prefix_def)
    then have "s = [] @ strip_prompt_prefix s" by simp
    then show ?thesis by blast
  qed
qed

lemma py_in_of_stripped: "py_in sub (py_strip s) \<Longrightarrow> py_in sub s"
proof -
  assume "py_in sub (py_strip s)"
  then obtain u v where 1: "py_strip s = u @ sub @ v" by (auto simp: py_in_iff)
  obtain a b where "s = a @ py_strip s @ b" using py_strip_split by blast
  with 1 have "s = (a @ u) @ sub @ (v @ b)" by simp
  then show ?thesis unfolding py_in_iff by blast
qed

lemma marker_echo_has_marker: "marker_echo_line l \<Longrightarrow> py_in ''__TMUX_BRIDGE_'' l"
proof -
  assume m: "marker_echo_line l"
  let ?t = "strip_prompt_prefix (py_strip l)"
  from m have "take (length (''echo '' @ [CHR 0x27] @ ''__TMUX_BRIDGE_'')) ?t
      = ''echo '' @ [CHR 0x27] @ ''__TMUX_BRIDGE_''"
    by (simp add: marker_echo_line_def startswith_def)
  then have "?t = (''echo '' @ [CHR 0x27] @ ''__TMUX_BRIDGE_'')
       @ drop (length (''echo '' @ [CHR 0x27] @ ''__TMUX_BRIDGE_'')) ?t"
    by (metis append_take_drop_id)
  then have "?t = (''echo '' @ [CHR 0x27]) @ ''__TMUX_BRIDGE_''
       @ drop (length (''echo '' @ [CHR 0x27] @ ''__TMUX_BRIDGE_'')) ?t" by simp
  moreover obtain a where "py_strip l = a @ ?t" using strip_prompt_prefix_split by blast
  ultimately have "py_strip l = (a @ ''echo '' @ [CHR 0x27]) @ ''__TMUX_BRIDGE_''
       @ drop (length (''echo '' @ [CHR 0x27] @ ''__TMUX_BRIDGE_'')) ?t"
    by (metis append.assoc)
  then have "py_in ''__TMUX_BRIDGE_'' (py_strip l)" unfolding py_in_iff by blast
  then show ?thesis by (rule py_in_of_stripped)
qed

lemma strip_prompt_prefixed:
  assumes "p \<in> set ''$#>''" "\<forall>ch\<in>set sp. py_isspace ch" "dropWhile py_isspace t = t"
  shows "strip_prompt_prefix (p # sp @ t) = t"
  using assms by (simp add: strip_prompt_prefix_def dropWhile_append)

lemma echo_command_no_leading: "dropWhile py_isspace (echo_command m) = echo_command m"
  by (simp add: echo_command_def py_isspace_def)

lemma echo_command_plain: "strip_prompt_prefix (echo_command m) = echo_command m"
  by (simp add: echo_command_def strip_prompt_prefix_def)

lemma startswith_echo_start:
  "startswith (echo_command (start_marker uid)) (''echo '' @ [CHR 0x27] @ ''__TMUX_BRIDGE_'')"
  by (simp add: startswith_def echo_command_def start_marker_def)

lemma startswith_echo_end:
  "startswith (echo_command (end_marker uid)) (''echo '' @ [CHR 0x27] @ ''__TMUX_BRIDGE_'')"
  by (simp add: startswith_def echo_command_def end_marker_def)

lemma shown_marker_echo:
  assumes "py_strip l = echo_command m \<or> prompt_prefixed (py_strip l) (echo_command m)"
    and "startswith (echo_command m) (''echo '' @ [CHR 0x27] @ ''__TMUX_BRIDGE_'')"
  shows "marker_echo_line l"
proof -
  have "strip_prompt_prefix (py_strip l) = echo_command m"
    using assms(1) strip_prompt_prefixed [OF _ _ echo_command_no_leading] echo_command_plain
    by auto
  with assms(2) show ?thesis by (simp add: marker_echo_line_def)
qed

lemma shown_command_echo:
  assumes "(py_strip c = py_strip command \<and>
            (py_strip command = [] \<or> hd (py_strip command) \<notin> set ''$#>''))
           \<or> prompt_prefixed (py_strip c) (py_strip command)"
  shows "command_echo_line command c"
proof -
  have plain: "strip_prompt_prefix t = t" if "t = [] \<or> hd t \<notin> set ''$#>''" for t
    using that by (cases t) (auto simp: strip_prompt_prefix_def)
  have "strip_prompt_prefix (py_strip c) = py_strip command"
    using assms strip_prompt_prefixed [OF _ _ py_strip_no_leading] plain by auto
  then show ?thesis by (simp add: command_echo_line_def)
qed

lemma command_echo_shape:
  assumes "command_echo_line command g"
  shows "py_strip g = py_strip command \<or> prompt_prefixed (py_strip g) (py_strip command)"
proof (cases "py_strip g")
  case Nil
  with assms show ?thesis by (simp add: command_echo_line_def strip_prompt_prefix_def)
next
  case (Cons x xs)
  show ?thesis
  proof (cases "x \<in> set ''$#>''")
    case True
    with Cons assms have "dropWhile py_isspace xs = py_strip command"
      by (simp add: command_echo_line_def strip_prompt_prefix_def)
    then have "py_strip g = x # takeWhile py_isspace xs @ py_strip command"
      using Cons by (metis takeWhile_dropWhile_id)
    moreover have "\<forall>ch\<in>set (takeWhile py_isspace xs). py_isspace ch"
      by (meson set_takeWhileD)
    ultimately show ?thesis using True by blast
  next
    case False
    with Cons assms show ?thesis by (simp add: command_echo_line_def strip_prompt_prefix_def)
  qed
qed

lemma genuine_kept:
  assumes "\<not> py_in ''__TMUX_BRIDGE_'' g" "py_strip g \<noteq> py_strip command"
    "\<not> prompt_prefixed (py_strip g) (py_strip command)"
  shows "kept_line command g"
proof -
  have "\<not> marker_echo_line g" using assms(1) marker_echo_has_marker by blast
  moreover have "\<not> command_echo_line command g" using assms(2,3) command_echo_shape by blast
  moreover have "\<not> residual_marker_line g"
    using assms(1) py_in_of_stripped by (auto simp: residual_marker_line_def)
  ultimately show ?thesis by (simp add: kept_line_def)
qed

lemma demo_block_shape:
  "prompt_prefixed (py_strip (''$ echo '' @ [CHR 0x27] @ ''__TMUX_BRIDGE_START_ab__'' @ [CHR 0x27]))
     (echo_command (start_marker ''ab''))"
  "prompt_prefixed (py_strip ''$ ls -1'') (py_strip ''ls -1'')"
  "prompt_prefixed (py_strip (''$ echo '' @ [CHR 0x27] @ ''__TMUX_BRIDGE_END_ab__'' @ [CHR 0x27]))
     (echo_command (end_marker ''ab''))"
proof -
  have sp: "CHR ''$'' \<in> set ''$#>'' \<and> (\<forall>ch\<in>set '' ''. py_isspace ch)"
    by (simp add: py_isspace_def)
  have "py_strip (''$ echo '' @ [CHR 0x27] @ ''__TMUX_BRIDGE_START_ab__'' @ [CHR 0x27])
      = CHR ''$'' # '' '' @ echo_command (start_marker ''ab'')"
    by (simp add: py_strip_def py_isspace_def echo_command_def start_marker_def)
  with sp show "prompt_prefixed
     (py_strip (''$ echo '' @ [CHR 0x27] @ ''__TMUX_BRIDGE_START_ab__'' @ [CHR 0x27]))
     (echo_command (start_marker ''ab''))" by blast
  have "py_strip ''$ ls -1'' = CHR ''$'' # '' '' @ py_strip ''ls -1''"
    by (simp add: py_strip_def py_isspace_def)
  with sp show "prompt_prefixed (py_strip ''$ ls -1'') (py_strip ''ls -1'')" by blast
  have "py_strip (''$ echo '' @ [CHR 0x27] @ ''__TMUX_BRIDGE_END_ab__'' @ [CHR 0x27])
      = CHR ''$'' # '' '' @ echo_command (end_marker ''ab'')"
    by (simp add: py_strip_def py_isspace_def echo_command_def end_marker_def)
  with sp show "prompt_prefixed
     (py_strip (''$ echo '' @ [CHR 0x27] @ ''__TMUX_BRIDGE_END_ab__'' @ [CHR 0x27]))
     (echo_command (end_marker ''ab''))" by blast
qed

lemma demo_block_lines:
  "\<forall>l\<in>set ((''$ echo '' @ [CHR 0x27] @ ''__TMUX_BRIDGE_START_ab__'' @ [CHR 0x27]) # ''$ ls -1''
       # [''notes.txt'', ''  src''] @ [''$ echo '' @ [CHR 0x27] @ ''__TMUX_BRIDGE_END_ab__'' @ [CHR 0x27]]).
     \<forall>ch\<in>set l. \<not> is_linebreak ch"
  "\<forall>g\<in>set [''notes.txt'', ''  src'']. \<not> py_in ''__TMUX_BRIDGE_'' g"
  "\<not> py_isspace (hd (hd [''notes.txt'', ''  src'']))"
  "\<not> py_isspace (last (last [''notes.txt'', ''  src'']))"
  by code_simp+

lemma demo_block_genuine:
  "\<forall>g\<in>set [''notes.txt'', ''  src'']. py_strip g \<noteq> py_strip ''ls -1'' \<and>
      \<not> prompt_prefixed (py_strip g) (py_strip ''ls -1'')"
  by (simp add: py_strip_def py_isspace_def)


subsection \<open>Sanitizer\<close>

text \<open>
  C6. Sanitizer identity on plain text: a string in which the escape character does
  not occur is returned unchanged by \<open>strip_ansi\<close>.
\<close>

theorem strip_ansi_plain_identity:
  "ESC \<notin> set s \<Longrightarrow> strip_ansi s = s"
  by (induction s) auto

theorem strip_ansi_plain_identity_witness:
  "ESC \<notin> set ''ls -la [ok] #1'' \<and> strip_ansi ''ls -la [ok] #1'' = ''ls -la [ok] #1''"
proof -
  have h: "ESC \<notin> set ''ls -la [ok] #1''" by (simp add: ESC_def)
  show ?thesis using h strip_ansi_plain_identity [OF h] by simp
qed

subsection \<open>Gateway errors\<close>

text \<open>
  C5 (as amended). An invocation of \<open>_run_tmux\<close> that fails because the tool is not
  found, because the subprocess exceeds the internal timeout, or with an exit status
  other than zero raises, in all three cases, the one exception class \<open>TmuxError\<close>;
  there is no separate class per cause. The three causes are told apart by the message
  only: a tool that is not found gives the fixed text
  "tmux is not installed or not in PATH", a subprocess timeout gives
  "tmux command timed out: " followed by the command line, and an exit status other
  than zero gives "tmux command failed (rc=...)" with the exit code, the command line
  and the error stream with its surrounding whitespace removed. An exit status of zero
  returns the standard output.
\<close>

theorem run_tmux_failure_kinds:
  "(procs w (length (calls w)) = FileNotFound \<longrightarrow>
      fst (run_tmux w args) = Inl (Exc TmuxError [Lit ''tmux is not installed or not in PATH''])) \<and>
   (procs w (length (calls w)) = TimeoutExpired \<longrightarrow>
      fst (run_tmux w args) =
        Inl (Exc TmuxError [Lit ''tmux command timed out: '',
                            StrV (join '' '' (''tmux'' # args))])) \<and>
   (procs w (length (calls w)) = Completed rc out err \<and> rc \<noteq> 0 \<longrightarrow>
      fst (run_tmux w args) =
        Inl (Exc TmuxError [Lit ''tmux command failed (rc='', IntV rc, Lit ''): '',
                            StrV (join '' '' (''tmux'' # args)), Lit (LF # ''stderr: ''),
                            StrV (py_strip err)])) \<and>
   (procs w (length (calls w)) = Completed 0 out err \<longrightarrow> fst (run_tmux w args) = Inr out) \<and>
   (fst (run_tmux w args) = Inl e \<and> exc_cls e = TmuxError \<longrightarrow>
      (procs w (length (calls w)) = FileNotFound \<longleftrightarrow>
         exc_msg e = [Lit ''tmux is not installed or not in PATH'']) \<and>
      (procs w (length (calls w)) = TimeoutExpired \<longleftrightarrow>
         exc_msg e = [Lit ''tmux command timed out: '', StrV (join '' '' (''tmux'' # args))]) \<and>
      ((\<exists>c so se. procs w (length (calls w)) = Completed c so se \<and> c \<noteq> 0) \<longleftrightarrow>
         hd (exc_msg e) = Lit ''tmux command failed (rc=''))"
  by (auto simp: run_tmux_def Let_def split: proc_result.splits if_splits)

theorem run_tmux_failure_kinds_witness:
  "fst (run_tmux (world_of [] FileNotFound) [''has-session'', ''-t'', ''main''])
     = Inl (Exc TmuxError [Lit ''tmux is not installed or not in PATH'']) \<and>
   fst (run_tmux (world_of [] TimeoutExpired) [''has-session'', ''-t'', ''main''])
     = Inl (Exc TmuxError [Lit ''tmux command timed out: '', StrV ''tmux has-session -t main'']) \<and>
   fst (run_tmux (world_of [] (Completed 1 [] ''no server running '')) [''has-session'', ''-t'', ''main''])
     = Inl (Exc TmuxError [Lit ''tmux command failed (rc='', IntV 1, Lit ''): '',
                     StrV ''tmux has-session -t main'', Lit (LF # ''stderr: ''),
                     StrV ''no server running'']) \<and>
   fst (run_tmux (world_of [] (Completed 0 ''main'' [])) [''has-session'', ''-t'', ''main''])
     = Inr ''main''"
proof -
  have p1: "procs (world_of [] FileNotFound) (length (calls (world_of [] FileNotFound)))
              = FileNotFound"
    and p2: "procs (world_of [] TimeoutExpired) (length (calls (world_of [] TimeoutExpired)))
              = TimeoutExpired"
    and p3: "procs (world_of [] (Completed 1 [] ''no server running ''))
               (length (calls (world_of [] (Completed 1 [] ''no server running ''))))
              = Completed 1 [] ''no server running '' \<and> (1::int) \<noteq> 0"
    and p4: "procs (world_of [] (Completed 0 ''main'' []))
               (length (calls (world_of [] (Completed 0 ''main'' []))))
              = Completed 0 ''main'' []"
    by (simp_all add: world_of_def)
  have s: "py_strip ''no server running '' = ''no server running''"
    by (simp add: py_strip_def py_isspace_def)
  from run_tmux_failure_kinds
         [where w = "world_of [] FileNotFound" and args = "[''has-session'', ''-t'', ''main'']",
          THEN conjunct1, THEN mp, OF p1]
       run_tmux_failure_kinds
         [where w = "world_of [] TimeoutExpired" and args = "[''has-session'', ''-t'', ''main'']",
          THEN conjunct2, THEN conjunct1, THEN mp, OF p2]
       run_tmux_failure_kinds
         [where w = "world_of [] (Completed 1 [] ''no server running '')"
            and args = "[''has-session'', ''-t'', ''main'']",
          THEN conjunct2, THEN conjunct2, THEN conjunct1, THEN mp, OF p3]
       run_tmux_failure_kinds
         [where w = "world_of [] (Completed 0 ''main'' [])"
            and args = "[''has-session'', ''-t'', ''main'']",
          THEN conjunct2, THEN conjunct2, THEN conjunct2, THEN conjunct1, THEN mp, OF p4]
  show ?thesis by (simp add: s)
qed

text \<open>
  The claim as stated asks for three distinguishable error types. A missing tool, a
  subprocess timeout and a non-zero exit all raise the same class.
\<close>

theorem run_tmux_single_error_type:
  "exc_cls (projl (fst (run_tmux (world_of [] FileNotFound) [''list-sessions''])))
     = exc_cls (projl (fst (run_tmux (world_of [] TimeoutExpired) [''list-sessions''])))
   \<and> exc_cls (projl (fst (run_tmux (world_of [] TimeoutExpired) [''list-sessions''])))
     = exc_cls (projl (fst (run_tmux (world_of [] (Completed 1 [] [])) [''list-sessions''])))"
  by (simp add: run_tmux_def world_of_def)

subsection \<open>Session handle\<close>

text \<open>
  C7. \<open>list_sessions\<close> is to return a list of names whatever the listing invocation
  does, the empty list when it fails. It does so when the gateway raises
  \<open>TmuxError\<close>: for a tool that is not found, a subprocess timeout and a non-zero
  exit the result is the empty list. When the tool is found but cannot be executed,
  \<open>subprocess.run\<close> raises \<open>PermissionError\<close>, which \<open>_run_tmux\<close> does not turn
  into a \<open>TmuxError\<close> and \<open>list_sessions\<close> does not catch: the call raises.
\<close>

theorem list_sessions_raises_permission_error:
  "fst (list_sessions (world_of [] (Raised ''PermissionError'' ''[Errno 13] Permission denied'')))
     = Inl (Exc (Builtin ''PermissionError'') [StrV ''[Errno 13] Permission denied'']) \<and>
   fst (list_sessions (world_of [] FileNotFound)) = Inr [] \<and>
   fst (list_sessions (world_of [] TimeoutExpired)) = Inr [] \<and>
   fst (list_sessions (world_of [] (Completed 1 [] ''no server running''))) = Inr []"
  by (simp add: list_sessions_def run_tmux_def world_of_def)

text \<open>
  C8. Line-limited read. The claim asks, for every line count \<open>n\<close>, for the last \<open>n\<close>
  lines of the sanitized text. At \<open>n = 0\<close> the slice \<open>[-0:]\<close> is the whole list: a
  capture of two lines, read with \<open>lines=0\<close>, comes back as both lines and not as the
  empty text that the last zero lines are.
\<close>

theorem read_buffer_lines_zero_returns_all:
  "fst (read_buffer (default_controller ''main'')
        (world_of [] (Completed 0 (''alpha'' @ [LF] @ ''beta'' @ [LF]) [])) (Some 0) False)
     = Inr (''alpha'' @ [LF] @ ''beta'') \<and>
   fst (read_buffer (default_controller ''main'')
        (world_of [] (Completed 0 (''alpha'' @ [LF] @ ''beta'' @ [LF]) [])) (Some 0) False)
     \<noteq> Inr (join [LF] [])"
  by (simp add: read_buffer_def run_tmux_def slice_from_neg_def world_of_def splitlines_def
        default_controller_def ESC_def LF_def CR_def is_linebreak_def)

text \<open>
  C10. With a line count of 0, \<open>read_buffer\<close> returns every line of the sanitized
  buffer, joined by newlines, and not the empty string (unless the buffer has no line or
  a single empty one): \<open>n = 0\<close> means no limit. With a positive count \<open>n\<close> it returns
  a final segment of at most \<open>n\<close> of those lines.
\<close>

theorem read_buffer_zero_lines_unlimited:
  "procs w (length (calls w)) = Completed 0 raw err \<Longrightarrow>
     fst (read_buffer ctl w (Some 0) history) = Inr (join [LF] (splitlines (strip_ansi raw))) \<and>
     (splitlines (strip_ansi raw) \<noteq> [] \<and> splitlines (strip_ansi raw) \<noteq> [[]] \<longrightarrow>
        fst (read_buffer ctl w (Some 0) history) \<noteq> Inr []) \<and>
     (\<forall>n>0. \<exists>pre ls. fst (read_buffer ctl w (Some n) history) = Inr (join [LF] ls) \<and>
        splitlines (strip_ansi raw) = pre @ ls \<and> length ls \<le> nat n)"
proof (intro conjI allI impI)
  assume ok: "procs w (length (calls w)) = Completed 0 raw err"
  show z: "fst (read_buffer ctl w (Some 0) history) = Inr (join [LF] (splitlines (strip_ansi raw)))"
    using read_buffer_ok [OF ok, of ctl "Some 0" history] by (simp add: slice_from_neg_zero)
  show "fst (read_buffer ctl w (Some 0) history) \<noteq> Inr []"
    if "splitlines (strip_ansi raw) \<noteq> [] \<and> splitlines (strip_ansi raw) \<noteq> [[]]"
    using that z by (simp add: join_eq_Nil)
  fix n :: int assume n: "0 < n"
  let ?ls = "splitlines (strip_ansi raw)"
  have "fst (read_buffer ctl w (Some n) history) = Inr (join [LF] (drop (length ?ls - nat n) ?ls))"
    using read_buffer_ok [OF ok, of ctl "Some n" history] n by (simp add: slice_from_neg_pos)
  moreover have "?ls = take (length ?ls - nat n) ?ls @ drop (length ?ls - nat n) ?ls" by simp
  moreover have "length (drop (length ?ls - nat n) ?ls) \<le> nat n" by simp
  ultimately show "\<exists>pre ls. fst (read_buffer ctl w (Some n) history) = Inr (join [LF] ls) \<and>
        ?ls = pre @ ls \<and> length ls \<le> nat n" by blast
qed

theorem read_buffer_zero_lines_unlimited_witness:
  "fst (read_buffer (default_controller ''main'')
        (world_of [] (Completed 0 (''one'' @ [LF] @ ''two'' @ [LF] @ ''three'' @ [LF]) []))
        (Some 0) False)
     = Inr (''one'' @ [LF] @ ''two'' @ [LF] @ ''three'')"
  using read_buffer_zero_lines_unlimited
    [of "world_of [] (Completed 0 (''one'' @ [LF] @ ''two'' @ [LF] @ ''three'' @ [LF]) [])"
        "''one'' @ [LF] @ ''two'' @ [LF] @ ''three'' @ [LF]" "[]" _ False]
  by (simp add: world_of_def splitlines_def ESC_def LF_def CR_def is_linebreak_def)

subsection \<open>Synchronous executor: marker extraction\<close>

text \<open>
  C1. Marker extraction. One poll yields raw output exactly when both markers occur in
  the buffer and the last occurrence of the end marker starts after the last occurrence
  of the start marker; the output is then the slice from the end of that start marker
  to the start of that end marker, so that, when the two do not overlap, the buffer is
  the text before the start marker, the start marker, the output, the end marker and
  the rest. Text put in front of a buffer in which both markers occur, whatever
  occurrences of the markers it holds itself, does not change the result.
\<close>

theorem marker_output_last_occurrences:
  "(marker_output buf sm em = Some out \<longleftrightarrow>
     (\<exists>si ei. occurs_at buf sm si \<and> (\<forall>i. occurs_at buf sm i \<longrightarrow> i \<le> si) \<and>
              occurs_at buf em ei \<and> (\<forall>j. occurs_at buf em j \<longrightarrow> j \<le> ei) \<and>
              si < ei \<and> out = slice buf (si + length sm) ei)) \<and>
   (occurs_at buf sm si \<and> occurs_at buf em ei \<and> si + length sm \<le> ei \<longrightarrow>
      buf = take si buf @ sm @ slice buf (si + length sm) ei @ em @ drop (ei + length em) buf) \<and>
   ((\<exists>i. occurs_at buf sm i) \<and> (\<exists>j. occurs_at buf em j) \<longrightarrow>
      marker_output (stale @ buf) sm em = marker_output buf sm em)"
proof (intro conjI impI)
  show "marker_output buf sm em = Some out \<longleftrightarrow>
     (\<exists>si ei. occurs_at buf sm si \<and> (\<forall>i. occurs_at buf sm i \<longrightarrow> i \<le> si) \<and>
              occurs_at buf em ei \<and> (\<forall>j. occurs_at buf em j \<longrightarrow> j \<le> ei) \<and>
              si < ei \<and> out = slice buf (si + length sm) ei)"
    by (rule marker_output_iff)
next
  assume "occurs_at buf sm si \<and> occurs_at buf em ei \<and> si + length sm \<le> ei"
  then show "buf = take si buf @ sm @ slice buf (si + length sm) ei @ em
                   @ drop (ei + length em) buf"
    using between_markers by blast
next
  assume "(\<exists>i. occurs_at buf sm i) \<and> (\<exists>j. occurs_at buf em j)"
  then show "marker_output (stale @ buf) sm em = marker_output buf sm em"
    using marker_output_stale_prefix by blast
qed

theorem marker_output_last_occurrences_witness:
  "marker_output
     (''__TMUX_BRIDGE_START_ab__'' @ [LF] @ ''hi'' @ [LF] @ ''__TMUX_BRIDGE_END_ab__'')
     (start_marker ''ab'') (end_marker ''ab'') = Some ([LF] @ ''hi'' @ [LF]) \<and>
   marker_output
     ((''$ echo __TMUX_BRIDGE_START_ab__ old __TMUX_BRIDGE_END_ab__'' @ [LF])
      @ ''__TMUX_BRIDGE_START_ab__'' @ [LF] @ ''hi'' @ [LF] @ ''__TMUX_BRIDGE_END_ab__'')
     (start_marker ''ab'') (end_marker ''ab'') = Some ([LF] @ ''hi'' @ [LF]) \<and>
   ''__TMUX_BRIDGE_START_ab__'' @ [LF] @ ''hi'' @ [LF] @ ''__TMUX_BRIDGE_END_ab__''
     = [] @ start_marker ''ab'' @ ([LF] @ ''hi'' @ [LF]) @ end_marker ''ab'' @ []"
proof -
  let ?buf = "''__TMUX_BRIDGE_START_ab__'' @ [LF] @ ''hi'' @ [LF] @ ''__TMUX_BRIDGE_END_ab__''"
  let ?stale = "''$ echo __TMUX_BRIDGE_START_ab__ old __TMUX_BRIDGE_END_ab__'' @ [LF]"
  have s: "occurs_at ?buf (start_marker ''ab'') 0"
    by (simp add: occurs_at_def start_marker_def)
  have e: "occurs_at ?buf (end_marker ''ab'') 28"
    by (simp add: occurs_at_def end_marker_def)
  have v: "marker_output ?buf (start_marker ''ab'') (end_marker ''ab'') = Some ([LF] @ ''hi'' @ [LF])"
    by code_simp
  note th = marker_output_last_occurrences [where buf = ?buf and sm = "start_marker ''ab''"
      and em = "end_marker ''ab''" and stale = ?stale and si = 0 and ei = 28]
  have le: "0 + length (start_marker ''ab'') \<le> (28::nat)" by (simp add: start_marker_def)
  from th [THEN conjunct2, THEN conjunct2] s e
  have "marker_output (?stale @ ?buf) (start_marker ''ab'') (end_marker ''ab'')
          = marker_output ?buf (start_marker ''ab'') (end_marker ''ab'')" by blast
  with v have st: "marker_output (?stale @ ?buf) (start_marker ''ab'') (end_marker ''ab'')
          = Some ([LF] @ ''hi'' @ [LF])" by simp
  from th [THEN conjunct2, THEN conjunct1] s e le
  have "?buf = take 0 ?buf @ start_marker ''ab'' @ slice ?buf (0 + length (start_marker ''ab'')) 28
       @ end_marker ''ab'' @ drop (28 + length (end_marker ''ab'')) ?buf" by blast
  then have "?buf = [] @ start_marker ''ab'' @ ([LF] @ ''hi'' @ [LF]) @ end_marker ''ab'' @ []"
    by (simp add: start_marker_def end_marker_def slice_def)
  with v st show ?thesis by blast
qed

subsection \<open>Synchronous executor: output cleaning\<close>

text \<open>
  C2 (as amended). Output cleaning. Take a raw block of single lines joined by newlines,
  each line read with its surrounding whitespace removed: the echo of the start-marker
  command \<open>echo '__TMUX_BRIDGE_START_<token>__'\<close>, bare or after a prompt character
  \<open>$\<close>, \<open>#\<close> or \<open>>\<close> and optional whitespace; the echo of the submitted
  command, after such a prompt, or bare when the command does not itself begin with one
  of the three prompt characters; one or more genuine output lines; and the echo of the
  end-marker command, bare or after a prompt. When no genuine line contains
  \<open>__TMUX_BRIDGE_\<close> or is the command, bare or after a prompt, and the first genuine
  line does not begin with whitespace and the last does not end with it, the cleaning
  step returns exactly the genuine lines, in order, joined by newlines. In particular
  every line that contains the substring \<open>__TMUX_BRIDGE_\<close> is dropped.
\<close>

theorem clean_marker_output_block:
  "((py_strip e1 = echo_command (start_marker uid) \<or>
       prompt_prefixed (py_strip e1) (echo_command (start_marker uid))) \<and>
    ((py_strip c = py_strip command \<and>
        (py_strip command = [] \<or> hd (py_strip command) \<notin> set ''$#>'')) \<or>
       prompt_prefixed (py_strip c) (py_strip command)) \<and>
    (py_strip e2 = echo_command (end_marker uid) \<or>
       prompt_prefixed (py_strip e2) (echo_command (end_marker uid))) \<and>
    (\<forall>l\<in>set (e1 # c # gs @ [e2]). \<forall>ch\<in>set l. \<not> is_linebreak ch) \<and>
    gs \<noteq> [] \<and>
    (\<forall>g\<in>set gs. \<not> py_in ''__TMUX_BRIDGE_'' g \<and> py_strip g \<noteq> py_strip command \<and>
                 \<not> prompt_prefixed (py_strip g) (py_strip command)) \<and>
    hd gs \<noteq> [] \<and> \<not> py_isspace (hd (hd gs)) \<and>
    last gs \<noteq> [] \<and> \<not> py_isspace (last (last gs))
    \<longrightarrow> clean_marker_output (join [LF] (e1 # c # gs @ [e2])) command = join [LF] gs) \<and>
   (py_in ''__TMUX_BRIDGE_'' l \<longrightarrow> \<not> kept_line command l)"
proof (intro conjI impI)
  assume h: "(py_strip e1 = echo_command (start_marker uid) \<or>
       prompt_prefixed (py_strip e1) (echo_command (start_marker uid))) \<and>
    ((py_strip c = py_strip command \<and>
        (py_strip command = [] \<or> hd (py_strip command) \<notin> set ''$#>'')) \<or>
       prompt_prefixed (py_strip c) (py_strip command)) \<and>
    (py_strip e2 = echo_command (end_marker uid) \<or>
       prompt_prefixed (py_strip e2) (echo_command (end_marker uid))) \<and>
    (\<forall>l\<in>set (e1 # c # gs @ [e2]). \<forall>ch\<in>set l. \<not> is_linebreak ch) \<and>
    gs \<noteq> [] \<and>
    (\<forall>g\<in>set gs. \<not> py_in ''__TMUX_BRIDGE_'' g \<and> py_strip g \<noteq> py_strip command \<and>
                 \<not> prompt_prefixed (py_strip g) (py_strip command)) \<and>
    hd gs \<noteq> [] \<and> \<not> py_isspace (hd (hd gs)) \<and>
    last gs \<noteq> [] \<and> \<not> py_isspace (last (last gs))"
  from h have e1: "marker_echo_line e1"
    by (intro shown_marker_echo [OF _ startswith_echo_start]) blast
  from h have c: "command_echo_line command c"
    by (intro shown_command_echo) blast
  from h have e2: "marker_echo_line e2"
    by (intro shown_marker_echo [OF _ startswith_echo_end]) blast
  from h have kept: "\<forall>g\<in>set gs. kept_line command g"
    using genuine_kept by blast
  from h have rest: "\<forall>l\<in>set (e1 # c # gs @ [e2]). \<forall>ch\<in>set l. \<not> is_linebreak ch"
    "gs \<noteq> []" "hd gs \<noteq> []" "\<not> py_isspace (hd (hd gs))"
    "last gs \<noteq> []" "\<not> py_isspace (last (last gs))" by blast+
  show "clean_marker_output (join [LF] (e1 # c # gs @ [e2])) command = join [LF] gs"
    by (rule clean_block [OF e1 c e2 rest(1) rest(2) kept rest(3-6)])
next
  assume "py_in ''__TMUX_BRIDGE_'' l"
  then show "\<not> kept_line command l" by (rule residual_marker_dropped)
qed

theorem clean_marker_output_block_witness:
  "clean_marker_output
     (join [LF] ((''$ echo '' @ [CHR 0x27] @ ''__TMUX_BRIDGE_START_ab__'' @ [CHR 0x27]) # ''$ ls -1''
       # [''notes.txt'', ''  src''] @ [''$ echo '' @ [CHR 0x27] @ ''__TMUX_BRIDGE_END_ab__'' @ [CHR 0x27]]))
     ''ls -1''
   = join [LF] [''notes.txt'', ''  src'']"
proof -
  have g: "\<forall>g\<in>set [''notes.txt'', ''  src'']. \<not> py_in ''__TMUX_BRIDGE_'' g \<and>
      py_strip g \<noteq> py_strip ''ls -1'' \<and> \<not> prompt_prefixed (py_strip g) (py_strip ''ls -1'')"
    using demo_block_lines(2) demo_block_genuine by blast
  have ne: "[''notes.txt'', ''  src''] \<noteq> []" "hd [''notes.txt'', ''  src''] \<noteq> []"
    "last [''notes.txt'', ''  src''] \<noteq> []" by simp_all
  show ?thesis
    by (rule clean_marker_output_block [where command = "''ls -1''" and c = "''$ ls -1''"
      and uid = "''ab''"
      and ?e1.0 = "''$ echo '' @ [CHR 0x27] @ ''__TMUX_BRIDGE_START_ab__'' @ [CHR 0x27]"
      and ?e2.0 = "''$ echo '' @ [CHR 0x27] @ ''__TMUX_BRIDGE_END_ab__'' @ [CHR 0x27]"
      and gs = "[''notes.txt'', ''  src'']", THEN conjunct1, THEN mp])
       (intro conjI disjI2 demo_block_shape demo_block_lines g ne)
qed

text \<open>
  The claim as stated has the markers of the block, and the substring that marks a line
  for removal, begin with \<open>__BRIDGE_\<close>. On such a block the echo lines stay in the
  result, and a line that contains \<open>__BRIDGE_\<close> is kept.
\<close>

theorem clean_marker_output_bridge_counterexample:
  "clean_marker_output
     (join [LF] [''echo '' @ [CHR 0x27] @ ''__BRIDGE_START_x__'' @ [CHR 0x27], ''ls'',
                 ''file1'', ''file2'',
                 ''echo '' @ [CHR 0x27] @ ''__BRIDGE_END_x__'' @ [CHR 0x27]]) ''ls''
   = join [LF] [''echo '' @ [CHR 0x27] @ ''__BRIDGE_START_x__'' @ [CHR 0x27],
                ''file1'', ''file2'',
                ''echo '' @ [CHR 0x27] @ ''__BRIDGE_END_x__'' @ [CHR 0x27]] \<and>
   clean_marker_output
     (join [LF] [''echo '' @ [CHR 0x27] @ ''__BRIDGE_START_x__'' @ [CHR 0x27], ''ls'',
                 ''file1'', ''file2'',
                 ''echo '' @ [CHR 0x27] @ ''__BRIDGE_END_x__'' @ [CHR 0x27]]) ''ls''
   \<noteq> join [LF] [''file1'', ''file2''] \<and>
   py_in ''__BRIDGE_'' ''prompt __BRIDGE_ text'' \<and>
   clean_marker_output ''prompt __BRIDGE_ text'' ''ls'' = ''prompt __BRIDGE_ text''"
  by code_simp

subsection \<open>Synchronous executor: markers\<close>

text \<open>
  C3 (as amended). Marker format. On every call of \<open>execute_and_wait\<close> with markers,
  the pair is built from one token, the first 12 of the 32 lowercase hexadecimal digits
  of a random UUID, as \<open>__TMUX_BRIDGE_START_<token>__\<close> and
  \<open>__TMUX_BRIDGE_END_<token>__\<close>; the first key-send of the call echoes the start
  marker in single quotes and, when the three key-sends are carried out, the third
  echoes the end marker.
\<close>

theorem marker_pair_format:
  "start_marker (marker_uid u) = ''__TMUX_BRIDGE_START_'' @ marker_uid u @ ''__'' \<and>
   end_marker (marker_uid u) = ''__TMUX_BRIDGE_END_'' @ marker_uid u @ ''__'' \<and>
   marker_uid u = take 12 (uuid_hex u) \<and>
   length (marker_uid u) = 12 \<and>
   list_all (\<lambda>c. c \<in> set ''0123456789abcdef'') (marker_uid u) \<and>
   (execute_and_wait ctl w clk u command timeout iv True = Some (r, w', clk') \<longrightarrow>
      (\<exists>rest. calls w' = calls w
         @ send_cmd ctl (''echo '' @ [CHR 0x27] @ ''__TMUX_BRIDGE_START_'' @ marker_uid u @ ''__'' @ [CHR 0x27])
         # rest) \<and>
      ((\<forall>i<3. \<exists>out err. procs w (length (calls w) + i) = Completed 0 out err) \<longrightarrow>
       (\<exists>rest. calls w' = calls w
         @ [send_cmd ctl (''echo '' @ [CHR 0x27] @ ''__TMUX_BRIDGE_START_'' @ marker_uid u @ ''__'' @ [CHR 0x27]),
            send_cmd ctl command,
            send_cmd ctl (''echo '' @ [CHR 0x27] @ ''__TMUX_BRIDGE_END_'' @ marker_uid u @ ''__'' @ [CHR 0x27])]
         @ rest)))"
proof (intro conjI impI)
  assume run: "execute_and_wait ctl w clk u command timeout iv True = Some (r, w', clk')"
  let ?c1 = "send_cmd ctl (echo_command (start_marker (marker_uid u)))"
  let ?c2 = "send_cmd ctl command"
  let ?c3 = "send_cmd ctl (echo_command (end_marker (marker_uid u)))"
  from marker_run_calls [OF run] obtain n k where
    n: "1 \<le> n" "n \<le> 3" and
    c: "calls w' = calls w @ take n [?c1, ?c2, ?c3] @ replicate k (capture_cmd ctl)" and
    ok: "(\<forall>i<3. \<exists>out err. procs w (length (calls w) + i) = Completed 0 out err) \<longrightarrow> n = 3"
    by blast
  from n obtain m where "n = Suc m" by (cases n) auto
  with c have "calls w' = calls w @ ?c1 # (take m [?c2, ?c3] @ replicate k (capture_cmd ctl))"
    by simp
  then show "\<exists>rest. calls w' = calls w
         @ send_cmd ctl (''echo '' @ [CHR 0x27] @ ''__TMUX_BRIDGE_START_'' @ marker_uid u @ ''__'' @ [CHR 0x27])
         # rest"
    by (simp add: echo_command_def start_marker_def)
  assume "\<forall>i<3. \<exists>out err. procs w (length (calls w) + i) = Completed 0 out err"
  with ok c have "calls w' = calls w @ [?c1, ?c2, ?c3] @ replicate k (capture_cmd ctl)" by simp
  then show "\<exists>rest. calls w' = calls w
         @ [send_cmd ctl (''echo '' @ [CHR 0x27] @ ''__TMUX_BRIDGE_START_'' @ marker_uid u @ ''__'' @ [CHR 0x27]),
            send_cmd ctl command,
            send_cmd ctl (''echo '' @ [CHR 0x27] @ ''__TMUX_BRIDGE_END_'' @ marker_uid u @ ''__'' @ [CHR 0x27])]
         @ rest"
    by (simp add: echo_command_def start_marker_def end_marker_def)
next
  show "list_all (\<lambda>c. c \<in> set ''0123456789abcdef'') (marker_uid u)"
    by (rule marker_uid_hex)
qed (simp_all add: start_marker_def end_marker_def length_marker_uid, simp add: marker_uid_def)

theorem marker_pair_format_witness:
  "start_marker (marker_uid 0) = ''__TMUX_BRIDGE_START_000000000000__'' \<and>
   end_marker (marker_uid 0) = ''__TMUX_BRIDGE_END_000000000000__'' \<and>
   (\<exists>rest. [send_cmd (default_controller ''main'') (echo_command (start_marker (marker_uid 0))),
            send_cmd (default_controller ''main'') ''ls'',
            send_cmd (default_controller ''main'') (echo_command (end_marker (marker_uid 0))),
            capture_cmd (default_controller ''main'')]
      = [send_cmd (default_controller ''main'') (''echo '' @ [CHR 0x27] @ ''__TMUX_BRIDGE_START_000000000000__'' @ [CHR 0x27]),
         send_cmd (default_controller ''main'') ''ls'',
         send_cmd (default_controller ''main'') (''echo '' @ [CHR 0x27] @ ''__TMUX_BRIDGE_END_000000000000__'' @ [CHR 0x27])]
        @ rest)"
proof -
  have ok: "\<forall>i<3. \<exists>out err.
      procs (world_of [] (Completed 0 ''$ sleep 9'' []))
        (length (calls (world_of [] (Completed 0 ''$ sleep 9'' []))) + i) = Completed 0 out err"
    by (simp add: world_of_def)
  note th = marker_pair_format [where u = 0 and ctl = "default_controller ''main''"
      and w = "world_of [] (Completed 0 ''$ sleep 9'' [])" and clk = "[0, 1, 31]"
      and command = "''ls''" and timeout = None and iv = None and clk' = "[]"
      and r = "Inl (Exc CommandTimeoutError
                  (timeout_msg ''Command did not complete within '' 30 ''ls''))"
      and w' = "(world_of [] (Completed 0 ''$ sleep 9'' []))
             \<lparr>calls := [send_cmd (default_controller ''main'') (echo_command (start_marker (marker_uid 0))),
                        send_cmd (default_controller ''main'') ''ls'',
                        send_cmd (default_controller ''main'') (echo_command (end_marker (marker_uid 0))),
                        capture_cmd (default_controller ''main'')]\<rparr>"]
  note imp = th [THEN conjunct2, THEN conjunct2, THEN conjunct2, THEN conjunct2, THEN conjunct2]
  note sent = imp [THEN mp, OF busy_pane_run, THEN conjunct2, THEN mp, OF ok]
  have "start_marker (marker_uid 0) = ''__TMUX_BRIDGE_START_000000000000__''"
    using th [THEN conjunct1] by (simp add: marker_uid_zero)
  moreover have "end_marker (marker_uid 0) = ''__TMUX_BRIDGE_END_000000000000__''"
    using th [THEN conjunct2, THEN conjunct1] by (simp add: marker_uid_zero)
  moreover from sent
  have "\<exists>rest. [send_cmd (default_controller ''main'') (echo_command (start_marker (marker_uid 0))),
            send_cmd (default_controller ''main'') ''ls'',
            send_cmd (default_controller ''main'') (echo_command (end_marker (marker_uid 0))),
            capture_cmd (default_controller ''main'')]
      = [send_cmd (default_controller ''main'') (''echo '' @ [CHR 0x27] @ ''__TMUX_BRIDGE_START_000000000000__'' @ [CHR 0x27]),
         send_cmd (default_controller ''main'') ''ls'',
         send_cmd (default_controller ''main'') (''echo '' @ [CHR 0x27] @ ''__TMUX_BRIDGE_END_000000000000__'' @ [CHR 0x27])]
        @ rest"
    by (simp add: world_of_def marker_uid_zero)
  ultimately show ?thesis by blast
qed

text \<open>
  The claim as stated names the prefixes \<open>__BRIDGE_START_\<close> and \<open>__BRIDGE_END_\<close>;
  the markers of the code begin with \<open>__TMUX_BRIDGE_\<close>.
\<close>

theorem marker_prefix_counterexample:
  "start_marker (marker_uid 0) = ''__TMUX_BRIDGE_START_000000000000__'' \<and>
   start_marker (marker_uid 0) \<noteq> ''__BRIDGE_START_000000000000__'' \<and>
   end_marker (marker_uid 0) = ''__TMUX_BRIDGE_END_000000000000__'' \<and>
   end_marker (marker_uid 0) \<noteq> ''__BRIDGE_END_000000000000__''"
  by (simp add: marker_uid_zero start_marker_def end_marker_def)

subsection \<open>Synchronous executor: side effects\<close>




subsection \<open>Synchronous executor: timeout\<close>



end
